theory Spec2Isabelle
  imports Complex_Main
begin

section \<open>CLEAN deconvolution in one dimension\<close>

text \<open>
  A shallow embedding of the functions of \<^verbatim>\<open>2_14_CLEAN_in_1D.ipynb\<close>:
  \<^verbatim>\<open>Hogbom_CLEAN\<close>, \<^verbatim>\<open>CS_CLEAN\<close>, the sample selection of
  \<^verbatim>\<open>fit_Gaussian_1D\<close> and \<^verbatim>\<open>inter_PSF\<close>.

  A one-dimensional float array is a \<open>real list\<close>, a complex one a \<open>complex list\<close>:
  the arithmetic is exact, rounding is not modelled. A value that numpy would compute as
  \<^verbatim>\<open>inf\<close> or \<^verbatim>\<open>nan\<close> has no counterpart in the reals; a run that produces one ends in
  \<open>NonFinite\<close>. Python's exceptions are the other values of \<open>error\<close>.
\<close>

subsection \<open>The numpy operations the notebook uses\<close>

datatype error = ValueError | TypeError | NonFinite

text \<open>\<^verbatim>\<open>np.argwhere(cond)\<close> on a one-dimensional array: the indices where the condition holds,
  in increasing order.\<close>

definition argwhere :: "('a \<Rightarrow> bool) \<Rightarrow> 'a list \<Rightarrow> nat list" where
  "argwhere P xs = filter (\<lambda>k. P (xs ! k)) [0..<length xs]"

text \<open>\<^verbatim>\<open>a.max()\<close>: raises \<^verbatim>\<open>ValueError\<close> on an empty array.\<close>

definition amax :: "real list \<Rightarrow> error + real" where
  "amax xs = (if xs = [] then Inl ValueError else Inr (Max (set xs)))"

text \<open>
  \<^verbatim>\<open>np.argwhere(abs(IR) == abs(IR).max()).squeeze()\<close>. The result of \<^verbatim>\<open>argwhere\<close> has shape
  \<open>(k, 1)\<close>; \<^verbatim>\<open>squeeze\<close> turns it into a zero-dimensional array when \<open>k = 1\<close> and into an array of
  shape \<open>(k,)\<close> otherwise. Both are the list of the \<open>k\<close> indices here: a singleton list is the
  zero-dimensional (scalar) case.
\<close>

definition find_peak :: "real list \<Rightarrow> error + nat list" where
  "find_peak IR =
     (case amax (map abs IR) of
        Inl e \<Rightarrow> Inl e
      | Inr m \<Rightarrow> Inr (argwhere (\<lambda>x. x = m) (map abs IR)))"

text \<open>\<^verbatim>\<open>IR[p]\<close> for an index array \<open>p\<close> whose entries are in range (they come from
  \<^verbatim>\<open>argwhere\<close> on an array of the same length).\<close>

definition take_at :: "real list \<Rightarrow> nat list \<Rightarrow> real list" where
  "take_at IR p = map (\<lambda>k. IR ! k) p"

text \<open>
  The loop test \<^verbatim>\<open>abs(Ipeak) > tol and i <= maxiter\<close>. \<^verbatim>\<open>and\<close> takes the truth value of its
  left operand first: that of an array with two or more elements raises \<^verbatim>\<open>ValueError\<close>,
  that of an empty array is false.
\<close>

definition loop_test :: "real list \<Rightarrow> real \<Rightarrow> int \<Rightarrow> int \<Rightarrow> error + bool" where
  "loop_test Ipeak tol i maxiter =
     (case Ipeak of
        [] \<Rightarrow> Inr False
      | [v] \<Rightarrow> Inr (\<bar>v\<bar> > tol \<and> i \<le> maxiter)
      | _ \<Rightarrow> Inl ValueError)"

text \<open>\<^verbatim>\<open>a[lo:hi]\<close> with Python's rules: a negative bound counts from the end, and both bounds
  are clipped to the array.\<close>

definition py_slice :: "'a list \<Rightarrow> int \<Rightarrow> int \<Rightarrow> 'a list" where
  "py_slice xs lo hi =
     (let n = int (length xs);
          l = (if lo < 0 then max (lo + n) 0 else min lo n);
          h = (if hi < 0 then max (hi + n) 0 else min hi n)
      in take (nat (h - l)) (drop (nat l) xs))"

text \<open>\<^verbatim>\<open>a -= b\<close> on one-dimensional arrays: \<open>b\<close> must have the length of \<open>a\<close> or length one
  (it is then broadcast); anything else raises \<^verbatim>\<open>ValueError\<close>.\<close>

definition isub :: "real list \<Rightarrow> real list \<Rightarrow> error + real list" where
  "isub a b =
     (if length b = length a then Inr (map2 (\<lambda>x y. x - y) a b)
      else if length b = 1 then Inr (map (\<lambda>x. x - hd b) a)
      else Inl ValueError)"

text \<open>\<^verbatim>\<open>int(Npsfmax - p)\<close> and \<^verbatim>\<open>int(Npsfmax + Npix - p)\<close>: \<^verbatim>\<open>Npsfmax\<close> is the \<^verbatim>\<open>argwhere\<close> result of
  shape \<open>(k, 1)\<close>, and \<^verbatim>\<open>int\<close> raises \<^verbatim>\<open>TypeError\<close> unless the array has exactly one element.\<close>

definition int_of :: "nat list \<Rightarrow> int \<Rightarrow> error + int" where
  "int_of Npsfmax d = (case Npsfmax of [c] \<Rightarrow> Inr (int c + d) | _ \<Rightarrow> Inl TypeError)"

subsection \<open>\<^verbatim>\<open>Hogbom_CLEAN\<close>\<close>

text \<open>
  The local variables of \<^verbatim>\<open>Hogbom_CLEAN\<close>. \<open>h_IR\<close> and \<open>h_Ipsf\<close> are the two argument arrays;
  \<open>h_IR\<close> is updated in place, and is the array returned. The two arguments are different
  arrays at every call of the notebook (\<^verbatim>\<open>ID.copy()\<close>, \<^verbatim>\<open>Ipsf.copy()\<close>, a fresh residual).
\<close>

record hstate =
  h_IR :: "real list"
  h_Ipsf :: "real list"
  h_IM :: "real list"
  h_Npix :: nat
  h_Npsfmax :: "nat list"
  h_p :: "nat list"
  h_Ipeak :: "real list"
  h_i :: int

text \<open>The lines before the loop.\<close>

definition Hogbom_init :: "real list \<Rightarrow> real list \<Rightarrow> error + hstate" where
  "Hogbom_init IR Ipsf =
     (case find_peak IR of
        Inl e \<Rightarrow> Inl e
      | Inr p \<Rightarrow>
          Inr \<lparr> h_IR = IR, h_Ipsf = Ipsf, h_IM = replicate (length IR) 0,
                h_Npix = length IR, h_Npsfmax = argwhere (\<lambda>x. x = 1) Ipsf,
                h_p = p, h_Ipeak = take_at IR p, h_i = 1 \<rparr>)"

text \<open>
  The loop body. It runs only after the loop test succeeded, so \<open>h_p\<close> is a single index.
\<close>

definition Hogbom_body :: "real \<Rightarrow> hstate \<Rightarrow> error + hstate" where
  "Hogbom_body gamma s =
     (case (h_p s, h_Ipeak s) of
        ([p], [v]) \<Rightarrow>
          (case int_of (h_Npsfmax s) (- int p) of
             Inl e \<Rightarrow> Inl e
           | Inr lo \<Rightarrow>
          (case int_of (h_Npsfmax s) (int (h_Npix s) - int p) of
             Inl e \<Rightarrow> Inl e
           | Inr hi \<Rightarrow>
          (case isub (h_IR s) (map (\<lambda>w. gamma * v * w) (py_slice (h_Ipsf s) lo hi)) of
             Inl e \<Rightarrow> Inl e
           | Inr IR' \<Rightarrow>
          (case find_peak IR' of
             Inl e \<Rightarrow> Inl e
           | Inr p' \<Rightarrow>
               Inr (s \<lparr> h_IR := IR',
                        h_IM := (h_IM s)[p := h_IM s ! p + gamma * v],
                        h_p := p', h_Ipeak := take_at IR' p',
                        h_i := h_i s + 1 \<rparr>)))))
      | _ \<Rightarrow> Inl ValueError)"

function Hogbom_loop :: "real \<Rightarrow> real \<Rightarrow> int \<Rightarrow> hstate \<Rightarrow> error + hstate" where
  "Hogbom_loop gamma tol maxiter s =
     (case loop_test (h_Ipeak s) tol (h_i s) maxiter of
        Inl e \<Rightarrow> Inl e
      | Inr go \<Rightarrow>
          if go then
            (case Hogbom_body gamma s of
               Inl e \<Rightarrow> Inl e
             | Inr s' \<Rightarrow> Hogbom_loop gamma tol maxiter s')
          else Inr s)"
  by pat_completeness auto
termination
  by (relation "measure (\<lambda>(gamma, tol, maxiter, s). nat (maxiter + 1 - h_i s))")
     (auto simp: Hogbom_body_def loop_test_def split: list.splits sum.splits)

declare Hogbom_loop.simps [simp del]

text \<open>
  The whole function. Besides the final state (whose \<open>h_IM\<close> and \<open>h_IR\<close> are the pair the
  Python returns) the result carries the lines printed.
\<close>

definition warning :: string where
  "warning = ''Warning maximum number of iterations exceeded''"

definition Hogbom_CLEAN ::
  "real list \<Rightarrow> real list \<Rightarrow> real \<Rightarrow> real \<Rightarrow> int \<Rightarrow> error + (hstate \<times> string list)" where
  "Hogbom_CLEAN IR Ipsf gamma tol maxiter =
     (case Hogbom_init IR Ipsf of
        Inl e \<Rightarrow> Inl e
      | Inr s0 \<Rightarrow>
          (case Hogbom_loop gamma tol maxiter s0 of
             Inl e \<Rightarrow> Inl e
           | Inr s \<Rightarrow> Inr (s, if h_i s \<ge> maxiter then [warning] else [])))"

subsection \<open>\<^verbatim>\<open>CS_CLEAN\<close>\<close>

text \<open>
  The matrix \<^verbatim>\<open>F\<close> of the Fourier kernel, of shape \<open>(nrows, ncols)\<close>: one row for each
  sampled baseline, one column for each pixel.
\<close>

record cmatrix =
  nrows :: nat
  ncols :: nat
  entry :: "nat \<Rightarrow> nat \<Rightarrow> complex"

text \<open>\<^verbatim>\<open>np.dot(F.conj().T, V)\<close>: \<^verbatim>\<open>ValueError\<close> when the shapes are not aligned.\<close>

definition dotH :: "cmatrix \<Rightarrow> complex list \<Rightarrow> error + complex list" where
  "dotH F V =
     (if length V = nrows F
      then Inr (map (\<lambda>j. \<Sum>k\<leftarrow>[0..<nrows F]. cnj (entry F k j) * V ! k) [0..<ncols F])
      else Inl ValueError)"

text \<open>\<^verbatim>\<open>np.dot(F, I)\<close> for a real array \<open>I\<close>.\<close>

definition dot :: "cmatrix \<Rightarrow> real list \<Rightarrow> error + complex list" where
  "dot F I =
     (if length I = ncols F
      then Inr (map (\<lambda>k. \<Sum>j\<leftarrow>[0..<ncols F]. entry F k j * complex_of_real (I ! j)) [0..<nrows F])
      else Inl ValueError)"

text \<open>\<^verbatim>\<open>np.real(np.dot(F.conj().T, V))/maxPSF\<close>, for a divisor that is not zero.\<close>

definition image_of :: "cmatrix \<Rightarrow> complex list \<Rightarrow> real \<Rightarrow> error + real list" where
  "image_of F V maxPSF =
     (case dotH F V of
        Inl e \<Rightarrow> Inl e
      | Inr W \<Rightarrow> Inr (map (\<lambda>z. Re z / maxPSF) W))"

text \<open>
  The local variables of \<^verbatim>\<open>CS_CLEAN\<close>. \<open>c_Ipsf\<close> is the argument array \<^verbatim>\<open>Ipsf\<close>, which the
  function divides in place; \<open>c_out\<close> collects the lines printed during the run.
\<close>

record cstate =
  c_Ipsf :: "real list"
  c_maxPSF :: real
  c_ID :: "real list"
  c_IMmajor :: "real list"
  c_IR :: "real list"
  c_p :: "nat list"
  c_Ipeak :: "real list"
  c_i :: int
  c_out :: "string list"

text \<open>The lines before the loop. Dividing by a maximum of zero gives \<^verbatim>\<open>nan\<close> and \<^verbatim>\<open>inf\<close>.\<close>

definition CS_init :: "complex list \<Rightarrow> cmatrix \<Rightarrow> real list \<Rightarrow> error + cstate" where
  "CS_init Vobs F Ipsf =
     (case amax Ipsf of
        Inl e \<Rightarrow> Inl e
      | Inr maxPSF \<Rightarrow>
          if maxPSF = 0 then Inl NonFinite
          else
            (case image_of F Vobs maxPSF of
               Inl e \<Rightarrow> Inl e
             | Inr ID \<Rightarrow>
                 (case find_peak ID of
                    Inl e \<Rightarrow> Inl e
                  | Inr p \<Rightarrow>
                      Inr \<lparr> c_Ipsf = map (\<lambda>x. x / maxPSF) Ipsf, c_maxPSF = maxPSF,
                            c_ID = ID, c_IMmajor = replicate (length ID) 0, c_IR = ID,
                            c_p = p, c_Ipeak = take_at ID p, c_i = 0, c_out = [] \<rparr>)))"

text \<open>
  The loop body. \<^verbatim>\<open>Hogbom_CLEAN\<close> is called with its defaults \<^verbatim>\<open>gamma=0.1\<close> and
  \<^verbatim>\<open>maxiter=200\<close>. \<^verbatim>\<open>IMmajor += IM\<close> adds two arrays of the same length, and so does
  \<^verbatim>\<open>Vobs - Vpred\<close> whenever \<^verbatim>\<open>np.dot\<close> accepted both.
\<close>

definition CS_body :: "complex list \<Rightarrow> cmatrix \<Rightarrow> real \<Rightarrow> cstate \<Rightarrow> error + cstate" where
  "CS_body Vobs F peak_Factor s =
     (case c_Ipeak s of
        [v] \<Rightarrow>
          (case Hogbom_CLEAN (c_IR s) (c_Ipsf s) 0.1 (peak_Factor * v) 200 of
             Inl e \<Rightarrow> Inl e
           | Inr (h, printed) \<Rightarrow>
               let IMmajor = map2 (\<lambda>x y. x + y) (c_IMmajor s) (h_IM h) in
          (case dot F IMmajor of
             Inl e \<Rightarrow> Inl e
           | Inr Vpred \<Rightarrow>
          (case image_of F (map2 (\<lambda>x y. x - y) Vobs Vpred) (c_maxPSF s) of
             Inl e \<Rightarrow> Inl e
           | Inr IR \<Rightarrow>
          (case find_peak IR of
             Inl e \<Rightarrow> Inl e
           | Inr p \<Rightarrow>
               Inr (s \<lparr> c_Ipsf := h_Ipsf h, c_IMmajor := IMmajor, c_IR := IR,
                        c_p := p, c_Ipeak := take_at IR p, c_i := c_i s + 1,
                        c_out := c_out s @ printed \<rparr>)))))
      | _ \<Rightarrow> Inl ValueError)"

function CS_loop ::
  "complex list \<Rightarrow> cmatrix \<Rightarrow> real \<Rightarrow> int \<Rightarrow> real \<Rightarrow> cstate \<Rightarrow> error + cstate" where
  "CS_loop Vobs F peak_Factor maxmajoriter majortol s =
     (case loop_test (c_Ipeak s) majortol (c_i s) maxmajoriter of
        Inl e \<Rightarrow> Inl e
      | Inr go \<Rightarrow>
          if go then
            (case CS_body Vobs F peak_Factor s of
               Inl e \<Rightarrow> Inl e
             | Inr s' \<Rightarrow> CS_loop Vobs F peak_Factor maxmajoriter majortol s')
          else Inr s)"
  by pat_completeness auto
termination
  by (relation "measure (\<lambda>(Vobs, F, peak_Factor, maxmajoriter, majortol, s).
        nat (maxmajoriter + 1 - c_i s))")
     (auto simp: CS_body_def loop_test_def Let_def split: list.splits sum.splits prod.splits)

declare CS_loop.simps [simp del]

text \<open>The whole function: the pair returned is \<open>(c_IMmajor, c_IR)\<close> of the final state.\<close>

definition CS_CLEAN ::
  "complex list \<Rightarrow> cmatrix \<Rightarrow> real list \<Rightarrow> real \<Rightarrow> int \<Rightarrow> real \<Rightarrow> error + cstate" where
  "CS_CLEAN Vobs F Ipsf peak_Factor maxmajoriter majortol =
     (case CS_init Vobs F Ipsf of
        Inl e \<Rightarrow> Inl e
      | Inr s0 \<Rightarrow> CS_loop Vobs F peak_Factor maxmajoriter majortol s0)"

subsection \<open>The samples \<^verbatim>\<open>fit_Gaussian_1D\<close> fits\<close>

text \<open>
  \<^verbatim>\<open>I = np.argwhere(Ipsf > 0.5*Ipsf).squeeze()\<close>: the indices of the samples handed to
  \<^verbatim>\<open>curve_fit\<close>. The comparison is elementwise, each sample against half of itself.
\<close>

definition fit_indices :: "real list \<Rightarrow> nat list" where
  "fit_indices Ipsf = argwhere (\<lambda>x. x > 0.5 * x) Ipsf"

text \<open>
  The main lobe as the text before the cell describes it (the primary lobe of the PSF): the
  samples above half of the maximum of the PSF.
\<close>

definition half_power_indices :: "real list \<Rightarrow> error + nat list" where
  "half_power_indices Ipsf =
     (case amax Ipsf of
        Inl e \<Rightarrow> Inl e
      | Inr m \<Rightarrow> Inr (argwhere (\<lambda>x. x > 0.5 * m) Ipsf))"

subsection \<open>\<^verbatim>\<open>inter_PSF\<close>\<close>

text \<open>
  \<^verbatim>\<open>x**R\<close> for floats: a zero base with a negative exponent gives \<^verbatim>\<open>inf\<close>, a negative base
  with an exponent that is not an integer gives \<^verbatim>\<open>nan\<close>.
\<close>

definition np_power :: "real \<Rightarrow> real \<Rightarrow> error + real" where
  "np_power x R =
     (if R = 0 then Inr 1
      else if x > 0 then Inr (x powr R)
      else if x = 0 then (if R > 0 then Inr 0 else Inl NonFinite)
      else if real_of_int \<lfloor>R\<rfloor> = R then Inr (x powi \<lfloor>R\<rfloor>)
      else Inl NonFinite)"

text \<open>The two assignments to \<^verbatim>\<open>Ws\<close>: \<^verbatim>\<open>np.abs((-u[I])**R)\<close> where \<open>u < 0\<close>,
  \<^verbatim>\<open>np.abs(u[I]**R)\<close> where \<open>u \<ge> 0\<close>.\<close>

definition weight :: "real \<Rightarrow> real \<Rightarrow> error + real" where
  "weight R u =
     (case (if u < 0 then np_power (- u) R else np_power u R) of
        Inl e \<Rightarrow> Inl e
      | Inr w \<Rightarrow> Inr \<bar>w\<bar>)"

fun collect :: "(error + 'a) list \<Rightarrow> error + 'a list" where
  "collect [] = Inr []"
| "collect (Inl e # rs) = Inl e"
| "collect (Inr x # rs) = (case collect rs of Inl e \<Rightarrow> Inl e | Inr xs \<Rightarrow> Inr (x # xs))"

text \<open>\<^verbatim>\<open>S*Ws\<close> with numpy's broadcasting of one-dimensional arrays.\<close>

definition bmul :: "real list \<Rightarrow> real list \<Rightarrow> error + real list" where
  "bmul a b =
     (if length a = length b then Inr (map2 (\<lambda>x y. x * y) a b)
      else if length a = 1 then Inr (map (\<lambda>y. hd a * y) b)
      else if length b = 1 then Inr (map (\<lambda>x. x * hd b) a)
      else Inl ValueError)"

text \<open>\<^verbatim>\<open>Ipsf = np.real(np.dot(F.conj().T, W)); Ipsf /= Ipsf.max()\<close>, for a real array \<open>W\<close>.\<close>

definition normalised_PSF :: "cmatrix \<Rightarrow> real list \<Rightarrow> error + real list" where
  "normalised_PSF F W =
     (case dotH F (map complex_of_real W) of
        Inl e \<Rightarrow> Inl e
      | Inr Z \<Rightarrow>
          (case amax (map Re Z) of
             Inl e \<Rightarrow> Inl e
           | Inr m \<Rightarrow> if m = 0 then Inl NonFinite else Inr (map (\<lambda>z. Re z / m) Z)))"

text \<open>
  \<^verbatim>\<open>inter_PSF\<close> up to its plotting: the result is the array \<^verbatim>\<open>Ipsf\<close> that the function
  builds and plots. Its arguments are the sampling function \<open>S\<close>, the kernel \<open>F\<close>, the
  baselines \<open>u\<close> and the exponent \<open>R\<close>.
\<close>

definition inter_PSF :: "real list \<Rightarrow> cmatrix \<Rightarrow> real list \<Rightarrow> real \<Rightarrow> error + real list" where
  "inter_PSF S F u R =
     (case collect (map (weight R) u) of
        Inl e \<Rightarrow> Inl e
      | Inr Ws \<Rightarrow>
          (case bmul S Ws of
             Inl e \<Rightarrow> Inl e
           | Inr W \<Rightarrow> normalised_PSF F W))"

text \<open>
  The naturally weighted PSF of the notebook:
  \<^verbatim>\<open>Ipsf2 = np.real(np.dot(F2psf.conj().T, S2)); maxPSF = Ipsf2.max(); Ipsf = Ipsf2/maxPSF\<close>.
\<close>

definition natural_PSF :: "real list \<Rightarrow> cmatrix \<Rightarrow> error + real list" where
  "natural_PSF S F = normalised_PSF F S"

subsection \<open>Notions used to state the properties\<close>

text \<open>\<open>n\<close> executions of the body of the minor cycle, one after the other, from a state.\<close>

primrec Hogbom_steps :: "nat \<Rightarrow> real \<Rightarrow> hstate \<Rightarrow> error + hstate" where
  "Hogbom_steps 0 gamma s = Inr s"
| "Hogbom_steps (Suc n) gamma s =
     (case Hogbom_body gamma s of
        Inl e \<Rightarrow> Inl e
      | Inr s' \<Rightarrow> Hogbom_steps n gamma s')"

text \<open>
  What holds of the local variables each time the loop test of \<^verbatim>\<open>Hogbom_CLEAN\<close> is
  evaluated: \<open>h_p\<close> and \<open>h_Ipeak\<close> are the result of the peak search on the current
  residual, and the variables set before the loop still describe the two arrays.
\<close>

definition at_loop_test :: "hstate \<Rightarrow> bool" where
  "at_loop_test s \<longleftrightarrow>
     find_peak (h_IR s) = Inr (h_p s) \<and> h_Ipeak s = take_at (h_IR s) (h_p s) \<and>
     h_Npix s = length (h_IR s) \<and> length (h_IM s) = length (h_IR s) \<and>
     h_Npsfmax s = argwhere (\<lambda>x. x = 1) (h_Ipsf s)"

text \<open>The largest absolute value of an array that is not empty.\<close>

definition peak_abs :: "real list \<Rightarrow> real" where
  "peak_abs IR = Max (set (map abs IR))"

text \<open>\<open>n\<close> executions of the body of the major cycle, one after the other, from a state.\<close>

primrec CS_steps :: "nat \<Rightarrow> complex list \<Rightarrow> cmatrix \<Rightarrow> real \<Rightarrow> cstate \<Rightarrow> error + cstate" where
  "CS_steps 0 Vobs F peak_Factor s = Inr s"
| "CS_steps (Suc n) Vobs F peak_Factor s =
     (case CS_body Vobs F peak_Factor s of
        Inl e \<Rightarrow> Inl e
      | Inr s' \<Rightarrow> CS_steps n Vobs F peak_Factor s')"

text \<open>The kernel of one baseline and one pixel, with the entry \<open>z\<close>.\<close>

definition one_by_one :: "complex \<Rightarrow> cmatrix" where
  "one_by_one z = \<lparr> nrows = 1, ncols = 1, entry = (\<lambda>k j. z) \<rparr>"

text \<open>The kernel with the given rows, all of the length of the first.\<close>

definition kernel_of_rows :: "complex list list \<Rightarrow> cmatrix" where
  "kernel_of_rows rows =
     \<lparr> nrows = length rows, ncols = (case rows of [] \<Rightarrow> 0 | r # _ \<Rightarrow> length r),
       entry = (\<lambda>k j. rows ! k ! j) \<rparr>"


section \<open>Properties\<close>

subsection \<open>Evaluation on concrete arrays\<close>

lemmas numpy_defs =
  argwhere_def amax_def find_peak_def take_at_def loop_test_def py_slice_def isub_def
  int_of_def upt_rec

lemmas Hogbom_defs =
  Hogbom_CLEAN_def Hogbom_init_def Hogbom_body_def Hogbom_loop.simps warning_def

lemmas CS_defs =
  CS_CLEAN_def CS_init_def CS_body_def CS_loop.simps dotH_def dot_def image_of_def

subsection \<open>Facts about the numpy operations and the loop body\<close>

lemma argwhere_set: "set (argwhere P xs) = {k. k < length xs \<and> P (xs ! k)}"
  by (auto simp: argwhere_def)


lemma find_peak_Inr:
  "find_peak IR = Inr ps \<longleftrightarrow> IR \<noteq> [] \<and> ps = argwhere (\<lambda>x. x = peak_abs IR) (map abs IR)"
  by (auto simp: find_peak_def amax_def peak_abs_def)

lemma find_peak_Inl: "find_peak IR = Inl e \<longleftrightarrow> IR = [] \<and> e = ValueError"
  by (auto simp: find_peak_def amax_def)

lemma find_peak_mem:
  assumes "find_peak IR = Inr ps" "k \<in> set ps"
  shows "k < length IR" "\<bar>IR ! k\<bar> = peak_abs IR"
  using assms by (auto simp: find_peak_Inr argwhere_set)


lemma peak_abs_ge: "k < length IR \<Longrightarrow> \<bar>IR ! k\<bar> \<le> peak_abs IR"
  unfolding peak_abs_def by (intro Max_ge) auto

lemma py_slice_inside:
  assumes "0 \<le> lo" "lo \<le> hi" "hi \<le> int (length xs)"
  shows "py_slice xs lo hi = take (nat (hi - lo)) (drop (nat lo) xs)"
  using assms by (auto simp: py_slice_def Let_def min_def max_def)

lemma isub_same_length:
  "length b = length a \<Longrightarrow> isub a b = Inr (map2 (\<lambda>x y. x - y) a b)"
  by (simp add: isub_def)

lemma isub_length: "isub a b = Inr c \<Longrightarrow> length c = length a"
  by (auto simp: isub_def split: if_splits)

lemma Hogbom_body_frame:
  assumes "Hogbom_body gamma s = Inr s'"
  shows "h_Ipsf s' = h_Ipsf s" "h_Npix s' = h_Npix s" "h_Npsfmax s' = h_Npsfmax s"
    "h_i s' = h_i s + 1" "length (h_IR s') = length (h_IR s)"
    "length (h_IM s') = length (h_IM s)"
    "find_peak (h_IR s') = Inr (h_p s')" "h_Ipeak s' = take_at (h_IR s') (h_p s')"
  using assms
  by (auto simp: Hogbom_body_def split: list.splits sum.splits dest: isub_length)

lemma at_loop_test_init: "Hogbom_init IR Ipsf = Inr s \<Longrightarrow> at_loop_test s"
  by (auto simp: Hogbom_init_def at_loop_test_def split: sum.splits)

lemma at_loop_test_body:
  "at_loop_test s \<Longrightarrow> Hogbom_body gamma s = Inr s' \<Longrightarrow> at_loop_test s'"
  using Hogbom_body_frame [of gamma s s'] by (simp add: at_loop_test_def)

subsection \<open>Facts about the minor-cycle loop\<close>

lemma Hogbom_loop_steps:
  "Hogbom_loop gamma tol maxiter s = Inr s' \<Longrightarrow>
     \<exists>n. Hogbom_steps n gamma s = Inr s' \<and> h_i s' = h_i s + int n"
proof (induction gamma tol maxiter s rule: Hogbom_loop.induct)
  case (1 gamma tol maxiter s)
  from "1.prems" obtain go where go: "loop_test (h_Ipeak s) tol (h_i s) maxiter = Inr go"
    by (subst (asm) Hogbom_loop.simps) (auto split: sum.splits)
  show ?case
  proof (cases go)
    case False
    with go "1.prems" have "s' = s"
      by (subst (asm) Hogbom_loop.simps) simp
    then have "Hogbom_steps 0 gamma s = Inr s' \<and> h_i s' = h_i s + int 0" by simp
    then show ?thesis by blast
  next
    case True
    with go "1.prems" obtain s1 where
      s1: "Hogbom_body gamma s = Inr s1" and rest: "Hogbom_loop gamma tol maxiter s1 = Inr s'"
      by (subst (asm) Hogbom_loop.simps) (auto split: sum.splits)
    from "1.IH" [OF go True s1 rest] obtain n where
      n: "Hogbom_steps n gamma s1 = Inr s'" "h_i s' = h_i s1 + int n" by blast
    have "Hogbom_steps (Suc n) gamma s = Inr s' \<and> h_i s' = h_i s + int (Suc n)"
      using n s1 Hogbom_body_frame(4) [OF s1] by simp
    then show ?thesis by blast
  qed
qed


lemma Hogbom_loop_bound:
  "Hogbom_loop gamma tol maxiter s = Inr s' \<Longrightarrow> h_i s' \<le> max (h_i s) (maxiter + 1)"
proof (induction gamma tol maxiter s rule: Hogbom_loop.induct)
  case (1 gamma tol maxiter s)
  from "1.prems" obtain go where go: "loop_test (h_Ipeak s) tol (h_i s) maxiter = Inr go"
    by (subst (asm) Hogbom_loop.simps) (auto split: sum.splits)
  show ?case
  proof (cases go)
    case False
    with go "1.prems" have "s' = s"
      by (subst (asm) Hogbom_loop.simps) simp
    then show ?thesis by simp
  next
    case True
    with go "1.prems" obtain s1 where
      s1: "Hogbom_body gamma s = Inr s1" and rest: "Hogbom_loop gamma tol maxiter s1 = Inr s'"
      by (subst (asm) Hogbom_loop.simps) (auto split: sum.splits)
    from go True have "h_i s \<le> maxiter"
      by (auto simp: loop_test_def split: list.splits)
    with "1.IH" [OF go True s1 rest] Hogbom_body_frame(4) [OF s1] show ?thesis by simp
  qed
qed

lemma Hogbom_steps_frame:
  "Hogbom_steps n gamma s = Inr s' \<Longrightarrow> h_Ipsf s' = h_Ipsf s \<and> length (h_IR s') = length (h_IR s)
     \<and> length (h_IM s') = length (h_IM s) \<and> (at_loop_test s \<longrightarrow> at_loop_test s')"
proof (induction n arbitrary: s)
  case 0
  then show ?case by simp
next
  case (Suc n)
  from Suc.prems obtain s1 where s1: "Hogbom_body gamma s = Inr s1"
    and rest: "Hogbom_steps n gamma s1 = Inr s'"
    by (auto split: sum.splits)
  from Suc.IH [OF rest] Hogbom_body_frame [OF s1] at_loop_test_body [OF _ s1]
  show ?case by auto
qed

subsection \<open>The subtraction step, index by index\<close>

lemma take_drop_map_nth:
  assumes "m + n \<le> length xs"
  shows "take n (drop m xs) = map (\<lambda>k. xs ! (m + k)) [0..<n]"
  using assms by (intro nth_equalityI) auto

lemma py_slice_window:
  assumes "p \<le> c" "c + n - p \<le> length xs"
  shows "py_slice xs (int c + (- int p)) (int c + (int n - int p)) =
    map (\<lambda>k. xs ! (c + k - p)) [0..<n]"
proof -
  have "py_slice xs (int c + (- int p)) (int c + (int n - int p)) =
      take (nat ((int c + (int n - int p)) - (int c + (- int p))))
        (drop (nat (int c + (- int p))) xs)"
    using assms by (intro py_slice_inside) auto
  also have "nat ((int c + (int n - int p)) - (int c + (- int p))) = n" by simp
  also have "nat (int c + (- int p)) = c - p" by simp
  also have "take n (drop (c - p) xs) = map (\<lambda>k. xs ! (c - p + k)) [0..<n]"
    using assms by (intro take_drop_map_nth) auto
  also have "\<dots> = map (\<lambda>k. xs ! (c + k - p)) [0..<n]"
    using assms by auto
  finally show ?thesis .
qed

lemma map2_map_nth:
  assumes "length ys = length xs"
  shows "map2 f xs ys = map (\<lambda>k. f (xs ! k) (ys ! k)) [0..<length xs]"
  using assms by (intro nth_equalityI) auto

lemma Hogbom_body_explicit:
  assumes inv: "at_loop_test s" and p: "h_p s = [p]" and c: "h_Npsfmax s = [c]"
    and lo: "p \<le> c" and hi: "c + h_Npix s - p \<le> length (h_Ipsf s)"
  shows "\<exists>s'. Hogbom_body gamma s = Inr s' \<and>
      h_IR s' = map (\<lambda>k. h_IR s ! k - gamma * (h_IR s ! p) * h_Ipsf s ! (c + k - p))
                  [0..<length (h_IR s)] \<and>
      h_IM s' = (h_IM s)[p := h_IM s ! p + gamma * (h_IR s ! p)]"
proof -
  let ?v = "h_IR s ! p"
  let ?n = "length (h_IR s)"
  from inv have n: "h_Npix s = ?n" and pk: "h_Ipeak s = take_at (h_IR s) (h_p s)"
    and fp: "find_peak (h_IR s) = Inr (h_p s)"
    by (simp_all add: at_loop_test_def)
  from pk p have v: "h_Ipeak s = [?v]" by (simp add: take_at_def)
  from find_peak_mem(1) [OF fp, of p] p have pn: "p < ?n" by simp
  let ?w = "map (\<lambda>k. h_Ipsf s ! (c + k - p)) [0..<?n]"
  have sl: "py_slice (h_Ipsf s) (int c + (- int p)) (int c + (int (h_Npix s) - int p)) = ?w"
    using py_slice_window [OF lo hi] n by simp
  let ?IR' = "map (\<lambda>k. h_IR s ! k - gamma * ?v * h_Ipsf s ! (c + k - p)) [0..<?n]"
  have sub: "isub (h_IR s) (map (\<lambda>w. gamma * ?v * w) ?w) = Inr ?IR'"
    by (simp add: isub_def map2_map_nth)
  from pn have "?IR' \<noteq> []" by auto
  then obtain p' where p': "find_peak ?IR' = Inr p'"
    by (cases "find_peak ?IR'") (auto simp: find_peak_Inl)
  show ?thesis
    using p v c sl sub p' by (simp add: Hogbom_body_def int_of_def)
qed

lemma argwhere_singleton:
  assumes "argwhere P xs = [c]"
  shows "c < length xs" "P (xs ! c)" "k < length xs \<Longrightarrow> P (xs ! k) \<Longrightarrow> k = c"
proof -
  have s: "set (argwhere P xs) = {c}" using assms by simp
  then show "c < length xs" "P (xs ! c)" by (auto simp: argwhere_set)
  assume "k < length xs" "P (xs ! k)"
  then have "k \<in> set (argwhere P xs)" by (simp add: argwhere_set)
  with s show "k = c" by simp
qed

lemma amax_ge: "amax xs = Inr m \<Longrightarrow> k < length xs \<Longrightarrow> xs ! k \<le> m"
  by (auto simp: amax_def split: if_splits)

lemma Hogbom_body_peak_pixel:
  assumes inv: "at_loop_test s" and p: "h_p s = [p]" and c: "h_Npsfmax s = [c]"
    and lo: "p \<le> c" and hi: "c + h_Npix s - p \<le> length (h_Ipsf s)"
    and s': "Hogbom_body gamma s = Inr s'"
  shows "h_IR s' ! p = (1 - gamma) * h_IR s ! p"
proof -
  from inv have fp: "find_peak (h_IR s) = Inr (h_p s)"
    and cs: "argwhere (\<lambda>x. x = 1) (h_Ipsf s) = h_Npsfmax s"
    by (simp_all add: at_loop_test_def)
  from find_peak_mem(1) [OF fp, of p] p have pn: "p < length (h_IR s)" by simp
  from cs c have one: "h_Ipsf s ! c = 1"
    using argwhere_singleton(2) [of "\<lambda>x. x = 1" "h_Ipsf s" c] by simp
  from Hogbom_body_explicit [OF inv p c lo hi, of gamma] s'
  have "h_IR s' = map (\<lambda>k. h_IR s ! k - gamma * (h_IR s ! p) * h_Ipsf s ! (c + k - p))
                  [0..<length (h_IR s)]" by auto
  then have "h_IR s' ! p = h_IR s ! p - gamma * (h_IR s ! p) * h_Ipsf s ! (c + p - p)"
    using pn by simp
  with one show ?thesis by (simp add: algebra_simps)
qed

lemma Hogbom_CLEAN_steps:
  assumes "Hogbom_CLEAN IR Ipsf gamma tol maxiter = Inr (s, out)"
  shows "\<exists>s0 n. Hogbom_init IR Ipsf = Inr s0 \<and> Hogbom_steps n gamma s0 = Inr s \<and>
    n \<le> nat maxiter \<and> h_i s = 1 + int n"
proof -
  from assms obtain s0 where s0: "Hogbom_init IR Ipsf = Inr s0"
    and loop: "Hogbom_loop gamma tol maxiter s0 = Inr s"
    by (auto simp: Hogbom_CLEAN_def split: sum.splits)
  from s0 have i0: "h_i s0 = 1"
    by (auto simp: Hogbom_init_def split: sum.splits)
  from Hogbom_loop_steps [OF loop] obtain n where
    n: "Hogbom_steps n gamma s0 = Inr s" "h_i s = h_i s0 + int n" by blast
  from Hogbom_loop_bound [OF loop] i0 n(2) have "n \<le> nat maxiter" by simp
  with s0 n i0 show ?thesis by auto
qed

subsection \<open>Facts about the major cycle\<close>

lemma Hogbom_CLEAN_frame:
  assumes "Hogbom_CLEAN IR Ipsf gamma tol maxiter = Inr (s, out)"
  shows "h_Ipsf s = Ipsf" "length (h_IR s) = length IR" "length (h_IM s) = length IR"
proof -
  from Hogbom_CLEAN_steps [OF assms] obtain s0 n where
    s0: "Hogbom_init IR Ipsf = Inr s0" and n: "Hogbom_steps n gamma s0 = Inr s" by blast
  from s0 have "h_Ipsf s0 = Ipsf" "length (h_IR s0) = length IR" "length (h_IM s0) = length IR"
    by (auto simp: Hogbom_init_def split: sum.splits)
  with Hogbom_steps_frame [OF n]
  show "h_Ipsf s = Ipsf" "length (h_IR s) = length IR" "length (h_IM s) = length IR"
    by simp_all
qed

lemma CS_body_Inr:
  assumes "CS_body Vobs F peak_Factor s = Inr s'"
  obtains v h printed Vpred IR p where
    "c_Ipeak s = [v]"
    "Hogbom_CLEAN (c_IR s) (c_Ipsf s) 0.1 (peak_Factor * v) 200 = Inr (h, printed)"
    "dot F (map2 (\<lambda>x y. x + y) (c_IMmajor s) (h_IM h)) = Inr Vpred"
    "image_of F (map2 (\<lambda>x y. x - y) Vobs Vpred) (c_maxPSF s) = Inr IR"
    "find_peak IR = Inr p"
    "s' = s \<lparr> c_Ipsf := h_Ipsf h, c_IMmajor := map2 (\<lambda>x y. x + y) (c_IMmajor s) (h_IM h),
              c_IR := IR, c_p := p, c_Ipeak := take_at IR p, c_i := c_i s + 1,
              c_out := c_out s @ printed \<rparr>"
  using assms
  by (auto simp: CS_body_def Let_def split: list.splits sum.splits prod.splits)

lemma CS_body_frame:
  assumes "CS_body Vobs F peak_Factor s = Inr s'"
  shows "c_Ipsf s' = c_Ipsf s" "c_maxPSF s' = c_maxPSF s" "c_i s' = c_i s + 1"
    "find_peak (c_IR s') = Inr (c_p s')" "c_Ipeak s' = take_at (c_IR s') (c_p s')"
proof -
  from assms obtain v h printed Vpred IR p where b:
    "Hogbom_CLEAN (c_IR s) (c_Ipsf s) 0.1 (peak_Factor * v) 200 = Inr (h, printed)"
    "find_peak IR = Inr p"
    "s' = s \<lparr> c_Ipsf := h_Ipsf h, c_IMmajor := map2 (\<lambda>x y. x + y) (c_IMmajor s) (h_IM h),
              c_IR := IR, c_p := p, c_Ipeak := take_at IR p, c_i := c_i s + 1,
              c_out := c_out s @ printed \<rparr>"
    by (rule CS_body_Inr)
  from Hogbom_CLEAN_frame(1) [OF b(1)] b(2,3)
  show "c_Ipsf s' = c_Ipsf s" "c_maxPSF s' = c_maxPSF s" "c_i s' = c_i s + 1"
    "find_peak (c_IR s') = Inr (c_p s')" "c_Ipeak s' = take_at (c_IR s') (c_p s')"
    by simp_all
qed

lemma CS_init_Inr:
  assumes "CS_init Vobs F Ipsf = Inr s0"
  shows "amax Ipsf = Inr (c_maxPSF s0)" "c_maxPSF s0 \<noteq> 0"
    "c_Ipsf s0 = map (\<lambda>x. x / c_maxPSF s0) Ipsf"
    "find_peak (c_IR s0) = Inr (c_p s0)" "c_Ipeak s0 = take_at (c_IR s0) (c_p s0)"
    "c_out s0 = []" "c_i s0 = 0"
  using assms
  by (auto simp: CS_init_def split: sum.splits if_splits)

lemma CS_steps_frame:
  "CS_steps n Vobs F peak_Factor s = Inr s' \<Longrightarrow>
     c_Ipsf s' = c_Ipsf s \<and> c_maxPSF s' = c_maxPSF s \<and> c_i s' = c_i s + int n \<and>
     (find_peak (c_IR s) = Inr (c_p s) \<and> c_Ipeak s = take_at (c_IR s) (c_p s) \<longrightarrow>
      find_peak (c_IR s') = Inr (c_p s') \<and> c_Ipeak s' = take_at (c_IR s') (c_p s'))"
proof (induction n arbitrary: s)
  case 0
  then show ?case by simp
next
  case (Suc n)
  from Suc.prems obtain s1 where s1: "CS_body Vobs F peak_Factor s = Inr s1"
    and rest: "CS_steps n Vobs F peak_Factor s1 = Inr s'"
    by (auto split: sum.splits)
  from Suc.IH [OF rest] CS_body_frame [OF s1]
  show ?case by simp
qed

lemma CS_loop_steps:
  "CS_loop Vobs F peak_Factor maxmajoriter majortol s = Inr s' \<Longrightarrow>
     \<exists>n. CS_steps n Vobs F peak_Factor s = Inr s'"
proof (induction Vobs F peak_Factor maxmajoriter majortol s rule: CS_loop.induct)
  case (1 Vobs F peak_Factor maxmajoriter majortol s)
  from "1.prems" obtain go where go: "loop_test (c_Ipeak s) majortol (c_i s) maxmajoriter = Inr go"
    by (subst (asm) CS_loop.simps) (auto split: sum.splits)
  show ?case
  proof (cases go)
    case False
    with go "1.prems" have "s' = s"
      by (subst (asm) CS_loop.simps) simp
    then have "CS_steps 0 Vobs F peak_Factor s = Inr s'" by simp
    then show ?thesis by blast
  next
    case True
    with go "1.prems" obtain s1 where
      s1: "CS_body Vobs F peak_Factor s = Inr s1"
      and rest: "CS_loop Vobs F peak_Factor maxmajoriter majortol s1 = Inr s'"
      by (subst (asm) CS_loop.simps) (auto split: sum.splits)
    from "1.IH" [OF go True s1 rest] obtain n where
      "CS_steps n Vobs F peak_Factor s1 = Inr s'" by blast
    with s1 have "CS_steps (Suc n) Vobs F peak_Factor s = Inr s'" by simp
    then show ?thesis by blast
  qed
qed





lemma CS_CLEAN_steps:
  assumes "CS_CLEAN Vobs F Ipsf peak_Factor maxmajoriter majortol = Inr t"
  shows "\<exists>s0 n. CS_init Vobs F Ipsf = Inr s0 \<and> CS_steps n Vobs F peak_Factor s0 = Inr t"
proof -
  from assms obtain s0 where s0: "CS_init Vobs F Ipsf = Inr s0"
    and loop: "CS_loop Vobs F peak_Factor maxmajoriter majortol s0 = Inr t"
    by (auto simp: CS_CLEAN_def split: sum.splits)
  from CS_loop_steps [OF loop] s0 show ?thesis by blast
qed

subsection \<open>Facts about the weights\<close>

lemma weight_zero: "weight 0 u = Inr 1"
  by (simp add: weight_def np_power_def)

lemma weight_even: "weight R (- u) = weight R u"
  by (simp add: weight_def)

lemma weight_powr: "u \<noteq> 0 \<Longrightarrow> R \<noteq> 0 \<Longrightarrow> weight R u = Inr (\<bar>u\<bar> powr R)"
  by (auto simp: weight_def np_power_def)

lemma map2_mult_ones: "map2 (\<lambda>x y. x * y) S (replicate (length S) (1::real)) = S"
  by (intro nth_equalityI) auto

lemma inter_PSF_zero:
  assumes "length S = length u"
  shows "inter_PSF S F u 0 = natural_PSF S F"
proof -
  have "collect (map (weight 0) u) = Inr (replicate (length u) 1)"
    by (induction u) (simp_all add: weight_zero)
  moreover have "bmul S (replicate (length u) 1) = Inr S"
    using assms map2_mult_ones [of S] by (simp add: bmul_def)
  ultimately show ?thesis
    by (simp add: inter_PSF_def natural_PSF_def)
qed

subsection \<open>The transforms, entry by entry\<close>

lemma sum_list_upt_cong:
  assumes "\<And>k. k < n \<Longrightarrow> f k = g k"
  shows "(\<Sum>k\<leftarrow>[0..<n]. f k) = (\<Sum>k\<leftarrow>[0..<n]. g k)"
proof -
  have "map f [0..<n] = map g [0..<n]" using assms by simp
  then show ?thesis by (rule arg_cong)
qed

lemma dot_Inr:
  "dot F I = Inr V \<longleftrightarrow>
     length I = ncols F \<and>
     V = map (\<lambda>k. \<Sum>j\<leftarrow>[0..<ncols F]. entry F k j * complex_of_real (I ! j)) [0..<nrows F]"
  by (auto simp: dot_def)

lemma dotH_Inr:
  "dotH F V = Inr W \<longleftrightarrow>
     length V = nrows F \<and>
     W = map (\<lambda>j. \<Sum>k\<leftarrow>[0..<nrows F]. cnj (entry F k j) * V ! k) [0..<ncols F]"
  by (auto simp: dotH_def)

lemma image_of_Inr:
  "image_of F V m = Inr IR \<longleftrightarrow>
     length V = nrows F \<and>
     IR = map (\<lambda>j. Re (\<Sum>k\<leftarrow>[0..<nrows F]. cnj (entry F k j) * V ! k) / m) [0..<ncols F]"
  by (auto simp: image_of_def dotH_def)

lemma CS_init_shape:
  assumes "CS_init Vobs F Ipsf = Inr s0"
  shows "length Vobs = nrows F" "length (c_IMmajor s0) = ncols F" "length (c_IR s0) = ncols F"
  using assms
  by (auto simp: CS_init_def image_of_Inr split: sum.splits if_splits)

lemma CS_body_shape:
  assumes "CS_body Vobs F peak_Factor s = Inr s'"
  shows "length (c_IMmajor s') = ncols F" "length (c_IR s') = ncols F"
proof -
  from assms obtain v h printed Vpred IR p where b:
    "dot F (map2 (\<lambda>x y. x + y) (c_IMmajor s) (h_IM h)) = Inr Vpred"
    "image_of F (map2 (\<lambda>x y. x - y) Vobs Vpred) (c_maxPSF s) = Inr IR"
    "s' = s \<lparr> c_Ipsf := h_Ipsf h, c_IMmajor := map2 (\<lambda>x y. x + y) (c_IMmajor s) (h_IM h),
              c_IR := IR, c_p := p, c_Ipeak := take_at IR p, c_i := c_i s + 1,
              c_out := c_out s @ printed \<rparr>"
    and "c_Ipeak s = [v]"
      "Hogbom_CLEAN (c_IR s) (c_Ipsf s) 0.1 (peak_Factor * v) 200 = Inr (h, printed)"
      "find_peak IR = Inr p"
    by (rule CS_body_Inr)
  from b(1) have "length (map2 (\<lambda>x y. x + y) (c_IMmajor s) (h_IM h)) = ncols F"
    by (simp only: dot_Inr)
  with b(3) show "length (c_IMmajor s') = ncols F" by simp
  from b(2) have "length IR = ncols F" by (simp add: image_of_Inr)
  with b(3) show "length (c_IR s') = ncols F" by simp
qed

lemma CS_steps_shape:
  "CS_steps n Vobs F peak_Factor s = Inr s' \<Longrightarrow>
     length (c_IMmajor s) = ncols F \<Longrightarrow> length (c_IR s) = ncols F \<Longrightarrow>
     length (c_IMmajor s') = ncols F \<and> length (c_IR s') = ncols F"
proof (induction n arbitrary: s)
  case 0
  then show ?case by simp
next
  case (Suc n)
  from Suc.prems(1) obtain s1 where s1: "CS_body Vobs F peak_Factor s = Inr s1"
    and rest: "CS_steps n Vobs F peak_Factor s1 = Inr s'"
    by (auto split: sum.splits)
  from Suc.IH [OF rest] CS_body_shape [OF s1] show ?case by simp
qed






lemma collect_Inr:
  "collect rs = Inr xs \<Longrightarrow> length xs = length rs \<and> (\<forall>k < length rs. rs ! k = Inr (xs ! k))"
proof (induction rs arbitrary: xs rule: collect.induct)
  case 1
  then show ?case by simp
next
  case (2 e rs)
  then show ?case by simp
next
  case (3 x rs)
  from "3.prems" obtain ys where ys: "collect rs = Inr ys" and xs: "xs = x # ys"
    by (auto split: sum.splits)
  from "3.IH" [OF ys] xs show ?case
    by (auto simp: nth_Cons split: nat.splits)
qed

lemma inter_PSF_explicit:
  assumes len: "length S = length u" and run: "inter_PSF S F u R = Inr P"
  shows "\<exists>Ws raw m.
      length Ws = length u \<and> (\<forall>k < length u. weight R (u ! k) = Inr (Ws ! k)) \<and>
      length u = nrows F \<and>
      (\<forall>j. raw j = Re (\<Sum>k\<leftarrow>[0..<nrows F]. cnj (entry F k j) *
                        complex_of_real (S ! k * Ws ! k))) \<and>
      ncols F \<noteq> 0 \<and> m = Max (raw ` {0..<ncols F}) \<and> m \<noteq> 0 \<and>
      P = map (\<lambda>j. raw j / m) [0..<ncols F]"
proof -
  from run obtain Ws W where Ws: "collect (map (weight R) u) = Inr Ws"
    and W: "bmul S Ws = Inr W" and n: "normalised_PSF F W = Inr P"
    by (auto simp: inter_PSF_def split: sum.splits)
  from collect_Inr [OF Ws] have lW: "length Ws = length u"
    and w: "\<forall>k < length u. weight R (u ! k) = Inr (Ws ! k)" by simp_all
  from W len lW have W': "W = map2 (\<lambda>x y. x * y) S Ws" by (simp add: bmul_def)
  from n obtain Z m where Z: "dotH F (map complex_of_real W) = Inr Z"
    and m: "amax (map Re Z) = Inr m" and nz: "m \<noteq> 0" and P: "P = map (\<lambda>z. Re z / m) Z"
    by (auto simp: normalised_PSF_def split: sum.splits if_splits)
  from Z have lW2: "length W = nrows F"
    and Z': "Z = map (\<lambda>j. \<Sum>k\<leftarrow>[0..<nrows F]. cnj (entry F k j) * map complex_of_real W ! k)
        [0..<ncols F]"
    by (simp_all add: dotH_Inr)
  from lW2 W' len lW have lu: "length u = nrows F" by simp
  define raw where "raw j = Re (\<Sum>k\<leftarrow>[0..<nrows F]. cnj (entry F k j) *
                        complex_of_real (S ! k * Ws ! k))" for j
  have el: "k < nrows F \<Longrightarrow> map complex_of_real W ! k = complex_of_real (S ! k * Ws ! k)" for k
    using W' len lW lu by simp
  have Zr: "map Re Z = map raw [0..<ncols F]"
    unfolding Z' raw_def using el by (simp cong: sum_list_upt_cong)
  from m Zr have ne: "ncols F \<noteq> 0" and mm: "m = Max (raw ` {0..<ncols F})"
    by (auto simp: amax_def split: if_splits)
  from P have "P = map (\<lambda>x. x / m) (map Re Z)" by simp
  then have P': "P = map (\<lambda>j. raw j / m) [0..<ncols F]"
    unfolding Zr by simp
  from lW w lu ne mm nz P' raw_def show ?thesis
    by (intro exI [of _ Ws] exI [of _ raw] exI [of _ m]) simp
qed

lemma inter_PSF_zero_explicit:
  assumes len: "length S = length u" and run: "inter_PSF S F u 0 = Inr P"
  shows "\<exists>raw m.
      (\<forall>j. raw j = Re (\<Sum>k\<leftarrow>[0..<nrows F]. cnj (entry F k j) * complex_of_real (S ! k))) \<and>
      m = Max (raw ` {0..<ncols F}) \<and> P = map (\<lambda>j. raw j / m) [0..<ncols F]"
proof -
  from inter_PSF_explicit [OF len run] obtain Ws raw m where
    w: "\<forall>k < length u. weight 0 (u ! k) = Inr (Ws ! k)" and lu: "length u = nrows F"
    and raw: "\<forall>j. raw j = Re (\<Sum>k\<leftarrow>[0..<nrows F]. cnj (entry F k j) *
                        complex_of_real (S ! k * Ws ! k))"
    and m: "m = Max (raw ` {0..<ncols F})" and P: "P = map (\<lambda>j. raw j / m) [0..<ncols F]"
    by blast
  from w lu have one: "k < nrows F \<Longrightarrow> Ws ! k = 1" for k
    by (auto simp: weight_zero)
  have "raw j = Re (\<Sum>k\<leftarrow>[0..<nrows F]. cnj (entry F k j) * complex_of_real (S ! k))" for j
    using raw one by (simp cong: sum_list_upt_cong)
  with m P show ?thesis by blast
qed

subsection \<open>The peak search on a tie\<close>

text \<open>
  Claim C6. The search of the minor cycle is meant to give one index of largest absolute
  value, the first one on a tie. On the all-zero residual \<open>[0, 0]\<close> the search of the notebook
  gives both indices, and the loop test that follows raises \<^verbatim>\<open>ValueError\<close>: the call does
  not return, although the residual is below every positive tolerance.
\<close>

theorem find_peak_tie_raises:
  "find_peak [0, 0] = Inr [0, 1] \<and>
   Hogbom_CLEAN [0, 0] [0, 0, 1, 0, 0] (1/10) (1/10) 200 = Inl ValueError"
  by (simp add: Hogbom_defs numpy_defs)

subsection \<open>The samples of the fit\<close>

text \<open>
  Claim C7. The fit of the ideal response is meant to use the samples of the PSF above half
  of its maximum. On the PSF \<open>[1/5, -1/10, 1, -1/10, 1/5]\<close> those are the sample at index 2
  alone, and the notebook hands the samples at the indices 0, 2 and 4 to the fit: every
  positive sample, the side lobes included.
\<close>

theorem fit_indices_take_side_lobes:
  "fit_indices [1/5, -1/10, 1, -1/10, 1/5] = [0, 2, 4] \<and>
   half_power_indices [1/5, -1/10, 1, -1/10, 1/5] = Inr [2]"
  by (simp add: fit_indices_def half_power_indices_def numpy_defs)

lemma fit_indices_positive: "fit_indices Ipsf = argwhere (\<lambda>x. x > 0) Ipsf"
  by (simp add: fit_indices_def)

subsection \<open>The warning of the minor cycle\<close>

text \<open>
  Claim C10. The warning printed at the end of \<^verbatim>\<open>Hogbom_CLEAN\<close> depends on the final value
  of the counter alone: it is printed exactly when the counter is at least \<open>maxiter\<close>. The
  counter starts at 1 and is one more than the number of executions of the loop body. So a
  run that stops because the tolerance is reached can still print the warning: with
  \<open>maxiter = 2\<close> the run below subtracts once, ends on the residual \<open>[0]\<close> and warns.
\<close>

theorem Hogbom_warning_by_counter:
  "(Hogbom_CLEAN IR Ipsf gamma tol maxiter = Inr (s, out) \<longrightarrow>
     out = (if maxiter \<le> h_i s then [warning] else []) \<and>
     (\<exists>s0 n. Hogbom_init IR Ipsf = Inr s0 \<and> h_i s0 = 1 \<and>
        Hogbom_steps n gamma s0 = Inr s \<and> h_i s = 1 + int n)) \<and>
   Hogbom_CLEAN [1] [0, 1, 0] 1 (1/10) 2 =
     Inr (\<lparr>h_IR = [0], h_Ipsf = [0, 1, 0], h_IM = [1], h_Npix = 1, h_Npsfmax = [1],
           h_p = [0], h_Ipeak = [0], h_i = 2\<rparr>, [warning])"
proof (intro conjI impI)
  assume run: "Hogbom_CLEAN IR Ipsf gamma tol maxiter = Inr (s, out)"
  then obtain s0 where s0: "Hogbom_init IR Ipsf = Inr s0"
    and loop: "Hogbom_loop gamma tol maxiter s0 = Inr s"
    and out: "out = (if maxiter \<le> h_i s then [warning] else [])"
    by (auto simp: Hogbom_CLEAN_def split: sum.splits)
  from out show "out = (if maxiter \<le> h_i s then [warning] else [])" .
  from s0 have i0: "h_i s0 = 1"
    by (auto simp: Hogbom_init_def split: sum.splits)
  from Hogbom_loop_steps [OF loop] i0 s0
  show "\<exists>s0 n. Hogbom_init IR Ipsf = Inr s0 \<and> h_i s0 = 1 \<and>
        Hogbom_steps n gamma s0 = Inr s \<and> h_i s = 1 + int n"
    by auto
next
  show "Hogbom_CLEAN [1] [0, 1, 0] 1 (1/10) 2 =
     Inr (\<lparr>h_IR = [0], h_Ipsf = [0, 1, 0], h_IM = [1], h_Npix = 1, h_Npsfmax = [1],
           h_p = [0], h_Ipeak = [0], h_i = 2\<rparr>, [warning])"
    by (simp add: Hogbom_defs numpy_defs)
qed

text \<open>The same at a run that starts below the tolerance: no subtraction, and the warning.\<close>

theorem Hogbom_warning_by_counter_witness:
  "Hogbom_CLEAN [1/20] [0, 1, 0] (1/10) (1/10) 1 =
     Inr (\<lparr>h_IR = [1/20], h_Ipsf = [0, 1, 0], h_IM = [0], h_Npix = 1, h_Npsfmax = [1],
           h_p = [0], h_Ipeak = [1/20], h_i = 1\<rparr>, [warning]) \<and>
   (\<exists>s0. Hogbom_init [1/20] [0, 1, 0] = Inr s0 \<and> h_i s0 = 1 \<and>
      Hogbom_steps 0 (1/10) s0 =
        Inr \<lparr>h_IR = [1/20], h_Ipsf = [0, 1, 0], h_IM = [0], h_Npix = 1, h_Npsfmax = [1],
             h_p = [0], h_Ipeak = [1/20], h_i = 1\<rparr>)"
proof -
  let ?s = "\<lparr>h_IR = [1/20], h_Ipsf = [0, 1, 0], h_IM = [0], h_Npix = 1, h_Npsfmax = [1],
           h_p = [0], h_Ipeak = [1/20::real], h_i = 1\<rparr>"
  have run: "Hogbom_CLEAN [1/20] [0, 1, 0] (1/10) (1/10) 1 = Inr (?s, [warning])"
    by (simp add: Hogbom_defs numpy_defs)
  from Hogbom_warning_by_counter [of "[1/20]" "[0, 1, 0]" "1/10" "1/10" 1 ?s "[warning]"] run
  obtain s0 n where "Hogbom_init [1/20] [0, 1, 0] = Inr s0" "h_i s0 = 1"
    "Hogbom_steps n (1/10) s0 = Inr ?s" "h_i ?s = 1 + int n"
    by blast
  moreover from this have "n = 0" by simp
  ultimately show ?thesis using run by auto
qed

subsection \<open>One iteration of the minor cycle\<close>

text \<open>
  Claim C1. Take the state at a loop test of the minor cycle, with the residual peak at the
  single index \<open>p\<close>, a PSF normalised to the maximum 1 that it takes at the single index \<open>c\<close>,
  and the window \<open>[c - p, c + Npix - p)\<close> inside the PSF. Then \<open>v = IR[p]\<close> has the largest
  absolute value of the residual, \<open>c\<close> is an index of the maximum of the PSF, and the loop
  body subtracts \<open>gamma * v * Ipsf[c + k - p]\<close> from the residual at every index \<open>k\<close> (the PSF
  shifted so that its index \<open>c\<close> meets \<open>p\<close>), adds \<open>gamma * v\<close> to the model at \<open>p\<close> and leaves
  the model elsewhere as it was.
\<close>

theorem Hogbom_body_subtracts_shifted_psf:
  assumes "at_loop_test s" and "h_p s = [p]" and "h_Npsfmax s = [c]"
    and "amax (h_Ipsf s) = Inr 1"
    and "p \<le> c" and "c + h_Npix s - p \<le> length (h_Ipsf s)"
  shows "\<exists>s' v. v = h_IR s ! p \<and> \<bar>v\<bar> = peak_abs (h_IR s) \<and>
      (\<forall>k < length (h_Ipsf s). h_Ipsf s ! k \<le> h_Ipsf s ! c) \<and>
      Hogbom_body gamma s = Inr s' \<and>
      h_IR s' = map (\<lambda>k. h_IR s ! k - gamma * v * h_Ipsf s ! (c + k - p))
                  [0..<length (h_IR s)] \<and>
      h_IM s' ! p = h_IM s ! p + gamma * v \<and>
      length (h_IM s') = length (h_IM s) \<and>
      (\<forall>k. k \<noteq> p \<longrightarrow> h_IM s' ! k = h_IM s ! k)"
proof -
  from assms(1) have fp: "find_peak (h_IR s) = Inr (h_p s)"
    and len: "length (h_IM s) = length (h_IR s)"
    and cs: "argwhere (\<lambda>x. x = 1) (h_Ipsf s) = h_Npsfmax s"
    by (simp_all add: at_loop_test_def)
  from find_peak_mem [OF fp, of p] assms(2)
  have pn: "p < length (h_IR s)" and pk: "\<bar>h_IR s ! p\<bar> = peak_abs (h_IR s)" by simp_all
  from cs assms(3) have "h_Ipsf s ! c = 1"
    using argwhere_singleton(2) [of "\<lambda>x. x = 1" "h_Ipsf s" c] by simp
  with amax_ge [OF assms(4)] have mx: "\<forall>k < length (h_Ipsf s). h_Ipsf s ! k \<le> h_Ipsf s ! c"
    by simp
  from Hogbom_body_explicit [OF assms(1,2,3,5,6), of gamma] obtain s' where
    s': "Hogbom_body gamma s = Inr s'"
    "h_IR s' = map (\<lambda>k. h_IR s ! k - gamma * (h_IR s ! p) * h_Ipsf s ! (c + k - p))
                  [0..<length (h_IR s)]"
    "h_IM s' = (h_IM s)[p := h_IM s ! p + gamma * (h_IR s ! p)]" by blast
  from s'(3) pn len have "h_IM s' ! p = h_IM s ! p + gamma * (h_IR s ! p)"
    "length (h_IM s') = length (h_IM s)"
    "\<forall>k. k \<noteq> p \<longrightarrow> h_IM s' ! k = h_IM s ! k"
    by simp_all
  with s'(1,2) pk mx show ?thesis by blast
qed

text \<open>
  The first iteration on the residual \<open>[3/10, 1]\<close> with the PSF \<open>[0, 1/5, 1, 1/5, 0]\<close> and the gain
  \<open>1/2\<close>: the peak is at index 1, the centre of the PSF at index 2.
\<close>

theorem Hogbom_body_subtracts_shifted_psf_witness:
  "Hogbom_init [3/10, 1] [0, 1/5, 1, 1/5, 0] =
     Inr \<lparr>h_IR = [3/10, 1], h_Ipsf = [0, 1/5, 1, 1/5, 0], h_IM = [0, 0], h_Npix = 2,
          h_Npsfmax = [2], h_p = [1], h_Ipeak = [1], h_i = 1\<rparr> \<and>
   at_loop_test \<lparr>h_IR = [3/10, 1], h_Ipsf = [0, 1/5, 1, 1/5, 0], h_IM = [0, 0], h_Npix = 2,
          h_Npsfmax = [2], h_p = [1], h_Ipeak = [1], h_i = 1\<rparr> \<and>
   amax [0, 1/5, 1, 1/5, 0] = Inr 1 \<and>
   (\<exists>s'. Hogbom_body (1/2) \<lparr>h_IR = [3/10, 1], h_Ipsf = [0, 1/5, 1, 1/5, 0], h_IM = [0, 0],
          h_Npix = 2, h_Npsfmax = [2], h_p = [1], h_Ipeak = [1], h_i = 1\<rparr> = Inr s' \<and>
      h_IR s' = [1/5, 1/2] \<and> h_IM s' ! 1 = 1/2 \<and> h_IM s' ! 0 = 0 \<and> length (h_IM s') = 2)"
proof -
  let ?s = "\<lparr>h_IR = [3/10, 1], h_Ipsf = [0, 1/5, 1, 1/5, 0::real], h_IM = [0, 0::real],
          h_Npix = 2, h_Npsfmax = [2], h_p = [1], h_Ipeak = [1::real], h_i = 1\<rparr>"
  have init: "Hogbom_init [3/10, 1] [0, 1/5, 1, 1/5, 0] = Inr ?s"
    by (simp add: Hogbom_defs numpy_defs)
  have inv: "at_loop_test ?s"
    by (rule at_loop_test_init [OF init])
  have mx: "amax (h_Ipsf ?s) = Inr 1"
    by (simp add: numpy_defs)
  from Hogbom_body_subtracts_shifted_psf [of ?s 1 2 "1/2", OF inv _ _ mx]
  obtain s' where s': "Hogbom_body (1/2) ?s = Inr s'"
    "h_IR s' = map (\<lambda>k. h_IR ?s ! k - 1/2 * (h_IR ?s ! 1) * h_Ipsf ?s ! (2 + k - 1))
                  [0..<length (h_IR ?s)]"
    "h_IM s' ! 1 = h_IM ?s ! 1 + 1/2 * (h_IR ?s ! 1)"
    "length (h_IM s') = length (h_IM ?s)"
    "\<forall>k. k \<noteq> 1 \<longrightarrow> h_IM s' ! k = h_IM ?s ! k"
    by auto
  from s'(2) have "h_IR s' = [1/5, 1/2]" by (simp add: upt_rec)
  moreover from s'(3) have "h_IM s' ! 1 = 1/2" by simp
  moreover from s'(5) have "h_IM s' ! 0 = 0" by simp
  moreover from s'(4) have "length (h_IM s') = 2" by simp
  ultimately show ?thesis using init inv mx s'(1) by simp
qed

subsection \<open>The window of the PSF stays inside the PSF\<close>

text \<open>
  Claim C5. For a PSF of \<open>2 * N + 1\<close> samples with its centre at index \<open>N\<close>, an image of
  \<open>Npix \<le> N\<close> pixels (the notebook has \<open>Npix = N = 300\<close>) and a peak index \<open>p < Npix\<close>, the two
  bounds \<^verbatim>\<open>int(Npsfmax - p)\<close> and \<^verbatim>\<open>int(Npsfmax + Npix - p)\<close> of the slice lie inside the PSF:
  the slice is neither wrapped nor clipped, it has \<open>Npix\<close> samples, sample \<open>k\<close> being sample
  \<open>N + k - p\<close> of the PSF, and the subtraction from a residual of \<open>Npix\<close> pixels is defined.
\<close>

theorem psf_window_within_bounds:
  assumes "length Ipsf = 2 * N + 1" and "Npix \<le> N" and "p < Npix"
    and "int_of [N] (- int p) = Inr lo" and "int_of [N] (int Npix - int p) = Inr hi"
  shows "0 \<le> lo \<and> lo \<le> hi \<and> hi \<le> int (length Ipsf) \<and> hi - lo = int Npix \<and>
     py_slice Ipsf lo hi = map (\<lambda>k. Ipsf ! (N + k - p)) [0..<Npix] \<and>
     (\<forall>k < Npix. N + k - p < length Ipsf) \<and>
     (length IR = Npix \<longrightarrow>
        isub IR (map (\<lambda>w. g * w) (py_slice Ipsf lo hi)) =
          Inr (map (\<lambda>k. IR ! k - g * Ipsf ! (N + k - p)) [0..<Npix]))"
proof -
  from assms(4,5) have lo: "lo = int N + (- int p)" and hi: "hi = int N + (int Npix - int p)"
    by (simp_all add: int_of_def)
  have sl: "py_slice Ipsf lo hi = map (\<lambda>k. Ipsf ! (N + k - p)) [0..<Npix]"
    unfolding lo hi using assms(1,2,3) by (intro py_slice_window) auto
  have "isub IR (map (\<lambda>w. g * w) (py_slice Ipsf lo hi)) =
          Inr (map (\<lambda>k. IR ! k - g * Ipsf ! (N + k - p)) [0..<Npix])" if "length IR = Npix"
    using that by (simp add: sl isub_def map2_map_nth)
  with sl show ?thesis
    using assms(1,2,3) lo hi by auto
qed

text \<open>The last pixel of an image of two pixels, with a PSF of five samples.\<close>

theorem psf_window_within_bounds_witness:
  "length [0, 1/5, 1, 1/5, 0::real] = 2 * 2 + 1 \<and> (2::nat) \<le> 2 \<and> (1::nat) < 2 \<and>
   int_of [2] (- int 1) = Inr 1 \<and> int_of [2] (int 2 - int 1) = Inr 3 \<and>
   py_slice [0, 1/5, 1, 1/5, 0::real] 1 3 = [1/5, 1] \<and>
   isub [3/10, 1] (map (\<lambda>w. 1/2 * w) (py_slice [0, 1/5, 1, 1/5, 0] 1 3)) = Inr [1/5, 1/2]"
proof -
  have l: "length [0, 1/5, 1, 1/5, 0::real] = 2 * 2 + 1" by simp
  have lo: "int_of [2] (- int 1) = Inr 1" and hi: "int_of [2] (int 2 - int 1) = Inr 3"
    by (simp_all add: int_of_def)
  have n: "(2::nat) \<le> 2" and p: "(1::nat) < 2" by simp_all
  note w = psf_window_within_bounds [where IR = "[3/10, 1]" and g = "1/2", OF l n p lo hi]
  have a: "py_slice [0, 1/5, 1, 1/5, 0::real] 1 3 =
      map (\<lambda>k. [0, 1/5, 1, 1/5, 0] ! (2 + k - 1)) [0..<2]"
    using w by (elim conjE)
  have "length [3/10, 1::real] = 2 \<longrightarrow>
    isub [3/10, 1] (map (\<lambda>w. 1/2 * w) (py_slice [0, 1/5, 1, 1/5, 0] 1 3)) =
      Inr (map (\<lambda>k. [3/10, 1] ! k - 1/2 * [0, 1/5, 1, 1/5, 0] ! (2 + k - 1)) [0..<2])"
    using w by (elim conjE)
  moreover have "length [3/10, 1::real] = 2" by simp
  ultimately have b: "isub [3/10, 1] (map (\<lambda>w. 1/2 * w) (py_slice [0, 1/5, 1, 1/5, 0] 1 3)) =
      Inr (map (\<lambda>k. [3/10, 1] ! k - 1/2 * [0, 1/5, 1, 1/5, 0] ! (2 + k - 1)) [0..<2])"
    by (rule mp)
  have a': "py_slice [0, 1/5, 1, 1/5, 0::real] 1 3 = [1/5, 1]"
    unfolding a by (simp add: upt_rec)
  have b': "isub [3/10, 1] (map (\<lambda>w. 1/2 * w) (py_slice [0, 1/5, 1, 1/5, 0] 1 3)) =
      Inr [1/5, 1/2]"
    unfolding b by (simp add: upt_rec)
  show ?thesis using lo hi a' b' n p by simp
qed

subsection \<open>The peak of the residual from one iteration to the next\<close>

text \<open>
  Claim C4 as stated fails: the largest absolute value of the residual can grow in an
  iteration. With the normalised PSF \<open>[0, -1/2, 1, -1/2, 0]\<close>, the gain \<open>1/2\<close> and the residual
  \<open>[1, 99/100]\<close>, the first iteration subtracts at index 0 and the negative side lobe raises
  index 1 to \<open>31/25\<close>: the peak goes from \<open>1\<close> to \<open>31/25\<close>.
\<close>

theorem Hogbom_peak_can_grow:
  "Hogbom_CLEAN [1, 99/100] [0, -1/2, 1, -1/2, 0] (1/2) (1/10) 1 =
     Inr (\<lparr>h_IR = [1/2, 31/25], h_Ipsf = [0, -1/2, 1, -1/2, 0], h_IM = [1/2, 0],
           h_Npix = 2, h_Npsfmax = [2], h_p = [1], h_Ipeak = [31/25], h_i = 2\<rparr>, [warning]) \<and>
   amax [0, -1/2, 1, -1/2, 0] = Inr 1 \<and>
   peak_abs [1, 99/100] = 1 \<and> peak_abs [1/2, 31/25] = 31/25 \<and>
   peak_abs [1, 99/100] < peak_abs [1/2, 31/25]"
  by (simp add: Hogbom_defs numpy_defs peak_abs_def)

text \<open>
  Claim C4, amended. For a gain in \<open>(0, 1]\<close> and a PSF that is 1 at its single centre, with
  the window inside the PSF, an iteration multiplies the residual at the peak index by
  \<open>1 - gamma\<close>: there the absolute value does not exceed the peak before the iteration. And
  a call of \<^verbatim>\<open>Hogbom_CLEAN\<close> that returns has executed the loop body at most \<open>maxiter\<close> times.
\<close>

theorem Hogbom_peak_pixel_shrinks_and_steps_bounded:
  "(at_loop_test s \<and> h_p s = [p] \<and> h_Npsfmax s = [c] \<and> p \<le> c \<and>
      c + h_Npix s - p \<le> length (h_Ipsf s) \<and> 0 < gamma \<and> gamma \<le> 1 \<and>
      Hogbom_body gamma s = Inr s' \<longrightarrow>
        \<bar>h_IR s' ! p\<bar> = (1 - gamma) * peak_abs (h_IR s) \<and>
        \<bar>h_IR s' ! p\<bar> \<le> peak_abs (h_IR s)) \<and>
   (Hogbom_CLEAN IR Ipsf gamma tol maxiter = Inr (r, out) \<longrightarrow>
      (\<exists>s0 n. Hogbom_init IR Ipsf = Inr s0 \<and> Hogbom_steps n gamma s0 = Inr r \<and>
         n \<le> nat maxiter))"
proof (intro conjI impI)
  assume h: "at_loop_test s \<and> h_p s = [p] \<and> h_Npsfmax s = [c] \<and> p \<le> c \<and>
      c + h_Npix s - p \<le> length (h_Ipsf s) \<and> 0 < gamma \<and> gamma \<le> 1 \<and>
      Hogbom_body gamma s = Inr s'"
  then have fp: "find_peak (h_IR s) = Inr (h_p s)" by (simp add: at_loop_test_def)
  from find_peak_mem(2) [OF fp, of p] h have pk: "\<bar>h_IR s ! p\<bar> = peak_abs (h_IR s)" by simp
  from h Hogbom_body_peak_pixel [of s p c gamma s']
  have "h_IR s' ! p = (1 - gamma) * h_IR s ! p" by simp
  then have "\<bar>h_IR s' ! p\<bar> = \<bar>1 - gamma\<bar> * \<bar>h_IR s ! p\<bar>" by (simp add: abs_mult)
  with h pk show e: "\<bar>h_IR s' ! p\<bar> = (1 - gamma) * peak_abs (h_IR s)" by simp
  have "0 \<le> peak_abs (h_IR s)" using pk by (metis abs_ge_zero)
  then have "(1 - gamma) * peak_abs (h_IR s) \<le> 1 * peak_abs (h_IR s)"
    using h by (intro mult_right_mono) auto
  with e show "\<bar>h_IR s' ! p\<bar> \<le> peak_abs (h_IR s)" by simp
next
  assume "Hogbom_CLEAN IR Ipsf gamma tol maxiter = Inr (r, out)"
  from Hogbom_CLEAN_steps [OF this]
  show "\<exists>s0 n. Hogbom_init IR Ipsf = Inr s0 \<and> Hogbom_steps n gamma s0 = Inr r \<and>
         n \<le> nat maxiter" by blast
qed

text \<open>The run of the counterexample again: index 0 goes from \<open>1\<close> to \<open>1/2\<close>, in one step.\<close>

theorem Hogbom_peak_pixel_shrinks_and_steps_bounded_witness:
  "Hogbom_init [1, 99/100] [0, -1/2, 1, -1/2, 0] =
     Inr \<lparr>h_IR = [1, 99/100], h_Ipsf = [0, -1/2, 1, -1/2, 0], h_IM = [0, 0],
          h_Npix = 2, h_Npsfmax = [2], h_p = [0], h_Ipeak = [1], h_i = 1\<rparr> \<and>
   Hogbom_body (1/2) \<lparr>h_IR = [1, 99/100], h_Ipsf = [0, -1/2, 1, -1/2, 0], h_IM = [0, 0],
          h_Npix = 2, h_Npsfmax = [2], h_p = [0], h_Ipeak = [1], h_i = 1\<rparr> =
     Inr \<lparr>h_IR = [1/2, 31/25], h_Ipsf = [0, -1/2, 1, -1/2, 0], h_IM = [1/2, 0],
          h_Npix = 2, h_Npsfmax = [2], h_p = [1], h_Ipeak = [31/25], h_i = 2\<rparr> \<and>
   \<bar>[1/2, 31/25::real] ! 0\<bar> = (1 - 1/2) * peak_abs [1, 99/100] \<and>
   \<bar>[1/2, 31/25::real] ! 0\<bar> \<le> peak_abs [1, 99/100] \<and>
   (\<exists>n. Hogbom_steps n (1/2) \<lparr>h_IR = [1, 99/100], h_Ipsf = [0, -1/2, 1, -1/2, 0],
          h_IM = [0, 0], h_Npix = 2, h_Npsfmax = [2], h_p = [0], h_Ipeak = [1], h_i = 1\<rparr> =
     Inr \<lparr>h_IR = [1/2, 31/25], h_Ipsf = [0, -1/2, 1, -1/2, 0], h_IM = [1/2, 0],
          h_Npix = 2, h_Npsfmax = [2], h_p = [1], h_Ipeak = [31/25], h_i = 2\<rparr> \<and>
      n \<le> nat 1)"
proof -
  let ?psf = "[0, -1/2, 1, -1/2, 0::real]"
  let ?s = "\<lparr>h_IR = [1, 99/100], h_Ipsf = ?psf, h_IM = [0, 0::real],
          h_Npix = 2, h_Npsfmax = [2], h_p = [0], h_Ipeak = [1::real], h_i = 1\<rparr>"
  let ?s' = "\<lparr>h_IR = [1/2, 31/25], h_Ipsf = ?psf, h_IM = [1/2, 0::real],
          h_Npix = 2, h_Npsfmax = [2], h_p = [1], h_Ipeak = [31/25::real], h_i = 2\<rparr>"
  have init: "Hogbom_init [1, 99/100] ?psf = Inr ?s"
    by (simp add: Hogbom_defs numpy_defs)
  have inv: "at_loop_test ?s"
    by (rule at_loop_test_init [OF init])
  have body: "Hogbom_body (1/2) ?s = Inr ?s'"
    by (simp add: Hogbom_defs numpy_defs)
  have run: "Hogbom_CLEAN [1, 99/100] ?psf (1/2) (1/10) 1 = Inr (?s', [warning])"
    by (simp add: Hogbom_defs numpy_defs)
  note t = Hogbom_peak_pixel_shrinks_and_steps_bounded
    [of ?s 0 2 "1/2" ?s' "[1, 99/100]" ?psf "1/10" 1 ?s' "[warning]"]
  from t inv body have "\<bar>h_IR ?s' ! 0\<bar> = (1 - 1/2) * peak_abs (h_IR ?s)"
    and "\<bar>h_IR ?s' ! 0\<bar> \<le> peak_abs (h_IR ?s)"
    by simp_all
  moreover from t run init have "\<exists>n. Hogbom_steps n (1/2) ?s = Inr ?s' \<and> n \<le> nat 1"
    by simp
  ultimately show ?thesis using init body by simp
qed

subsection \<open>Reaching the iteration limit\<close>




subsection \<open>The PSF array after a run\<close>

text \<open>
  Claim C9 as stated fails for \<^verbatim>\<open>CS_CLEAN\<close>, whose second statement \<^verbatim>\<open>Ipsf /= maxPSF\<close> divides
  the array passed in, in place. Called on the PSF \<open>[0, 2, 0]\<close>, it leaves \<open>[0, 1, 0]\<close> in that
  array.
\<close>

theorem CS_CLEAN_overwrites_psf:
  "CS_CLEAN [1] (one_by_one 1) [0, 2, 0] (19/20) 0 (1/100) =
     Inr \<lparr>c_Ipsf = [0, 1, 0], c_maxPSF = 2, c_ID = [1/2], c_IMmajor = [1/20], c_IR = [19/40],
          c_p = [0], c_Ipeak = [19/40], c_i = 1, c_out = []\<rparr> \<and>
   [0, 1, 0] \<noteq> [0, 2, 0::real]"
  by (simp add: CS_defs Hogbom_defs numpy_defs one_by_one_def)

text \<open>
  Claim C9, amended. A call of \<^verbatim>\<open>Hogbom_CLEAN\<close> that returns leaves its PSF array as it was.
  A call of \<^verbatim>\<open>CS_CLEAN\<close> that returns leaves in its PSF array the PSF divided by its maximum,
  which is not zero: the division before the loop is the only change. \<^verbatim>\<open>inter_PSF\<close> takes no
  PSF: the array it builds is computed from the sampling function, the kernel, the baselines
  and the exponent.
\<close>

theorem psf_argument_after_run:
  "(Hogbom_CLEAN IR Ipsf gamma tol maxiter = Inr (s, out) \<longrightarrow> h_Ipsf s = Ipsf) \<and>
   (CS_CLEAN Vobs F Cpsf peak_Factor maxmajoriter majortol = Inr t \<longrightarrow>
      (\<exists>m. amax Cpsf = Inr m \<and> m \<noteq> 0 \<and> c_Ipsf t = map (\<lambda>x. x / m) Cpsf)) \<and>
   (inter_PSF S F u R = Inr P \<longrightarrow>
      (\<exists>Ws W. collect (map (weight R) u) = Inr Ws \<and> bmul S Ws = Inr W \<and>
         normalised_PSF F W = Inr P))"
proof (intro conjI impI)
  assume "Hogbom_CLEAN IR Ipsf gamma tol maxiter = Inr (s, out)"
  then show "h_Ipsf s = Ipsf" by (rule Hogbom_CLEAN_frame)
next
  assume "CS_CLEAN Vobs F Cpsf peak_Factor maxmajoriter majortol = Inr t"
  from CS_CLEAN_steps [OF this] obtain s0 n where
    s0: "CS_init Vobs F Cpsf = Inr s0" and n: "CS_steps n Vobs F peak_Factor s0 = Inr t"
    by blast
  from CS_steps_frame [OF n] CS_init_Inr(1,2,3) [OF s0]
  show "\<exists>m. amax Cpsf = Inr m \<and> m \<noteq> 0 \<and> c_Ipsf t = map (\<lambda>x. x / m) Cpsf"
    by auto
next
  assume "inter_PSF S F u R = Inr P"
  then show "\<exists>Ws W. collect (map (weight R) u) = Inr Ws \<and> bmul S Ws = Inr W \<and>
         normalised_PSF F W = Inr P"
    by (auto simp: inter_PSF_def split: sum.splits)
qed

text \<open>The minor cycle of claim C4 and the major cycle above, with a weighting of exponent 1.\<close>

theorem psf_argument_after_run_witness:
  "Hogbom_CLEAN [1, 99/100] [0, -1/2, 1, -1/2, 0] (1/2) (1/10) 1 =
     Inr (\<lparr>h_IR = [1/2, 31/25], h_Ipsf = [0, -1/2, 1, -1/2, 0], h_IM = [1/2, 0],
       h_Npix = 2, h_Npsfmax = [2], h_p = [1], h_Ipeak = [31/25], h_i = 2\<rparr>, [warning]) \<and>
   CS_CLEAN [1] (one_by_one 1) [0, 2, 0] (19/20) 0 (1/100) =
     Inr \<lparr>c_Ipsf = [0, 1, 0], c_maxPSF = 2, c_ID = [1/2], c_IMmajor = [1/20], c_IR = [19/40],
          c_p = [0], c_Ipeak = [19/40], c_i = 1, c_out = []\<rparr> \<and>
   amax [0, 2, 0] = Inr 2 \<and> [0, 1, 0] = map (\<lambda>x. x / 2) [0, 2, 0::real] \<and>
   inter_PSF [1] (one_by_one 1) [-2] 1 = Inr [1] \<and>
   (\<exists>W. bmul [1] [2] = Inr W \<and> normalised_PSF (one_by_one 1) W = Inr [1])"
proof -
  let ?s = "\<lparr>h_IR = [1/2, 31/25], h_Ipsf = [0, -1/2, 1, -1/2, 0::real], h_IM = [1/2, 0::real],
       h_Npix = 2, h_Npsfmax = [2], h_p = [1], h_Ipeak = [31/25::real], h_i = 2\<rparr>"
  let ?t = "\<lparr>c_Ipsf = [0, 1, 0::real], c_maxPSF = 2, c_ID = [1/2::real],
       c_IMmajor = [1/20::real], c_IR = [19/40::real], c_p = [0], c_Ipeak = [19/40::real],
       c_i = 1, c_out = []\<rparr>"
  have h: "Hogbom_CLEAN [1, 99/100] [0, -1/2, 1, -1/2, 0] (1/2) (1/10) 1 = Inr (?s, [warning])"
    by (simp add: Hogbom_defs numpy_defs)
  have c: "CS_CLEAN [1] (one_by_one 1) [0, 2, 0] (19/20) 0 (1/100) = Inr ?t"
    by (simp add: CS_defs Hogbom_defs numpy_defs one_by_one_def)
  have w: "collect (map (weight 1) [-2]) = Inr [2]"
    by (simp add: weight_def np_power_def)
  have n: "normalised_PSF (one_by_one 1) [2] = Inr [1]"
    by (simp add: normalised_PSF_def dotH_def amax_def one_by_one_def upt_rec)
  have i: "inter_PSF [1] (one_by_one 1) [-2] 1 = Inr [1]"
    unfolding inter_PSF_def w by (simp add: bmul_def n)
  note t = psf_argument_after_run
    [where IR = "[1, 99/100]" and Ipsf = "[0, -1/2, 1, -1/2, 0]" and gamma = "1/2"
       and tol = "1/10" and maxiter = 1 and s = ?s and out = "[warning]"
       and Vobs = "[1]" and F = "one_by_one 1" and Cpsf = "[0, 2, 0]" and peak_Factor = "19/20"
       and maxmajoriter = 0 and majortol = "1/100" and t = ?t
       and S = "[1]" and u = "[-2]" and R = 1 and P = "[1]"]
  from t c obtain m where m: "amax [0, 2, 0] = Inr m" "c_Ipsf ?t = map (\<lambda>x. x / m) [0, 2, 0]"
    by auto
  from m(1) have m2: "m = 2" by (simp add: amax_def)
  from t i w have "\<exists>W. bmul [1] [2] = Inr W \<and> normalised_PSF (one_by_one 1) W = Inr [1]"
    by auto
  with h c i m m2 show ?thesis by simp
qed

subsection \<open>One major cycle\<close>

text \<open>
  Claim C2. Take a state \<open>s\<close> that \<^verbatim>\<open>CS_CLEAN\<close> reaches after some major cycles, and a further
  execution of the loop body from it. The body calls \<^verbatim>\<open>Hogbom_CLEAN\<close> on the current residual,
  with the tolerance \<open>peak_Factor * v\<close> where \<open>v\<close> is the residual at its peak index (the value
  itself, with its sign); it adds the model returned to the running model, pixel by pixel;
  and the new residual at pixel \<open>j\<close> is the real part of the sum over the baselines \<open>k\<close> of the
  conjugate of \<open>F[k, j]\<close> times the residual visibility, divided by the maximum of the PSF as
  it was passed in, where the residual visibility at \<open>k\<close> is \<open>Vobs[k]\<close> minus the sum over the
  pixels \<open>i\<close> of \<open>F[k, i]\<close> times the new running model at \<open>i\<close>.
\<close>

theorem CS_body_major_cycle:
  assumes init: "CS_init Vobs F Ipsf = Inr s0"
    and steps: "CS_steps n Vobs F peak_Factor s0 = Inr s"
    and body: "CS_body Vobs F peak_Factor s = Inr s'"
  shows "\<exists>p v h printed.
      c_p s = [p] \<and> v = c_IR s ! p \<and> \<bar>v\<bar> = peak_abs (c_IR s) \<and>
      Hogbom_CLEAN (c_IR s) (c_Ipsf s) (1/10) (peak_Factor * v) 200 = Inr (h, printed) \<and>
      length (c_IMmajor s) = ncols F \<and> length (h_IM h) = ncols F \<and>
      c_IMmajor s' = map (\<lambda>j. c_IMmajor s ! j + h_IM h ! j) [0..<ncols F] \<and>
      length Vobs = nrows F \<and>
      amax Ipsf = Inr (c_maxPSF s) \<and> c_maxPSF s \<noteq> 0 \<and>
      c_IR s' =
        map (\<lambda>j. Re (\<Sum>k\<leftarrow>[0..<nrows F]. cnj (entry F k j) *
                    (Vobs ! k -
                     (\<Sum>i\<leftarrow>[0..<ncols F]. entry F k i * complex_of_real (c_IMmajor s' ! i))))
                 / c_maxPSF s)
          [0..<ncols F]"
proof -
  from CS_steps_frame [OF steps] CS_init_Inr [OF init]
  have mx: "amax Ipsf = Inr (c_maxPSF s)" and nz: "c_maxPSF s \<noteq> 0"
    and fp: "find_peak (c_IR s) = Inr (c_p s)"
    and pk: "c_Ipeak s = take_at (c_IR s) (c_p s)"
    by simp_all
  from CS_steps_shape [OF steps] CS_init_shape [OF init]
  have lV: "length Vobs = nrows F" and lM: "length (c_IMmajor s) = ncols F"
    and lR: "length (c_IR s) = ncols F" by simp_all
  from body obtain v h printed Vpred IR q where b:
    "c_Ipeak s = [v]"
    "Hogbom_CLEAN (c_IR s) (c_Ipsf s) 0.1 (peak_Factor * v) 200 = Inr (h, printed)"
    "dot F (map2 (\<lambda>x y. x + y) (c_IMmajor s) (h_IM h)) = Inr Vpred"
    "image_of F (map2 (\<lambda>x y. x - y) Vobs Vpred) (c_maxPSF s) = Inr IR"
    "find_peak IR = Inr q"
    "s' = s \<lparr> c_Ipsf := h_Ipsf h, c_IMmajor := map2 (\<lambda>x y. x + y) (c_IMmajor s) (h_IM h),
              c_IR := IR, c_p := q, c_Ipeak := take_at IR q, c_i := c_i s + 1,
              c_out := c_out s @ printed \<rparr>"
    by (rule CS_body_Inr)
  from pk b(1) obtain p where p: "c_p s = [p]" and v: "v = c_IR s ! p"
    by (cases "c_p s") (auto simp: take_at_def)
  from find_peak_mem(2) [OF fp, of p] p v have av: "\<bar>v\<bar> = peak_abs (c_IR s)" by simp
  from Hogbom_CLEAN_frame(3) [OF b(2)] lR have lh: "length (h_IM h) = ncols F" by simp
  let ?M = "map (\<lambda>j. c_IMmajor s ! j + h_IM h ! j) [0..<ncols F]"
  have M: "map2 (\<lambda>x y. x + y) (c_IMmajor s) (h_IM h) = ?M"
    using lM lh by (simp add: map2_map_nth)
  with b(6) have m: "c_IMmajor s' = ?M" and r: "c_IR s' = IR" by simp_all
  let ?P = "\<lambda>k. \<Sum>i\<leftarrow>[0..<ncols F]. entry F k i * complex_of_real (c_IMmajor s' ! i)"
  from b(3) have Vp: "Vpred = map ?P [0..<nrows F]"
    unfolding M m [symmetric] by (simp add: dot_Inr)
  have res: "k < nrows F \<Longrightarrow> map2 (\<lambda>x y. x - y) Vobs Vpred ! k = Vobs ! k - ?P k" for k
    using lV Vp by simp
  from b(4) have "IR = map (\<lambda>j. Re (\<Sum>k\<leftarrow>[0..<nrows F]. cnj (entry F k j) *
        map2 (\<lambda>x y. x - y) Vobs Vpred ! k) / c_maxPSF s) [0..<ncols F]"
    by (simp add: image_of_Inr)
  also have "\<dots> = map (\<lambda>j. Re (\<Sum>k\<leftarrow>[0..<nrows F]. cnj (entry F k j) * (Vobs ! k - ?P k))
        / c_maxPSF s) [0..<ncols F]"
    using res by (simp cong: sum_list_upt_cong)
  finally have IR: "IR = map (\<lambda>j. Re (\<Sum>k\<leftarrow>[0..<nrows F]. cnj (entry F k j) *
        (Vobs ! k - ?P k)) / c_maxPSF s) [0..<ncols F]" .
  from p v av b(2) lM lh m lV mx nz r IR show ?thesis
    by (intro exI [of _ p] exI [of _ v] exI [of _ h] exI [of _ printed]) simp
qed

text \<open>
  The second major cycle of a run with two baselines and two pixels, a complex kernel and a
  PSF of maximum 2. The minor cycle leaves the residual \<open>[2219/1000, 1089/500]\<close>; the
  recomputed residual is \<open>[2219/1000, 2057/1000]\<close>.
\<close>

theorem CS_body_major_cycle_witness:
  "CS_init [Complex (31/10) 1, Complex (21/10) (- 1)]
     (kernel_of_rows [[Complex 1 0, Complex 1 1], [Complex 1 0, Complex 0 (- 1)]])
     [0, 1, 2, 1, 0] =
   Inr \<lparr>c_Ipsf = [0, 1/2, 1, 1/2, 0], c_maxPSF = 2, c_ID = [13/5, 51/20],
        c_IMmajor = [0, 0], c_IR = [13/5, 51/20], c_p = [0], c_Ipeak = [13/5], c_i = 0,
        c_out = []\<rparr> \<and>
   CS_steps 1 [Complex (31/10) 1, Complex (21/10) (- 1)]
     (kernel_of_rows [[Complex 1 0, Complex 1 1], [Complex 1 0, Complex 0 (- 1)]]) (19/20)
     \<lparr>c_Ipsf = [0, 1/2, 1, 1/2, 0], c_maxPSF = 2, c_ID = [13/5, 51/20],
        c_IMmajor = [0, 0], c_IR = [13/5, 51/20], c_p = [0], c_Ipeak = [13/5], c_i = 0,
        c_out = []\<rparr> =
   Inr \<lparr>c_Ipsf = [0, 1/2, 1, 1/2, 0], c_maxPSF = 2, c_ID = [13/5, 51/20],
        c_IMmajor = [13/50, 0], c_IR = [117/50, 121/50], c_p = [1], c_Ipeak = [121/50],
        c_i = 1, c_out = []\<rparr> \<and>
   CS_body [Complex (31/10) 1, Complex (21/10) (- 1)]
     (kernel_of_rows [[Complex 1 0, Complex 1 1], [Complex 1 0, Complex 0 (- 1)]]) (19/20)
     \<lparr>c_Ipsf = [0, 1/2, 1, 1/2, 0], c_maxPSF = 2, c_ID = [13/5, 51/20],
        c_IMmajor = [13/50, 0], c_IR = [117/50, 121/50], c_p = [1], c_Ipeak = [121/50],
        c_i = 1, c_out = []\<rparr> =
   Inr \<lparr>c_Ipsf = [0, 1/2, 1, 1/2, 0], c_maxPSF = 2, c_ID = [13/5, 51/20],
        c_IMmajor = [13/50, 121/500], c_IR = [2219/1000, 2057/1000], c_p = [0],
        c_Ipeak = [2219/1000], c_i = 2, c_out = []\<rparr> \<and>
   (\<exists>h printed.
      Hogbom_CLEAN [117/50, 121/50] [0, 1/2, 1, 1/2, 0] (1/10) (19/20 * (121/50)) 200 =
        Inr (h, printed) \<and>
      [13/50, 121/500] = map (\<lambda>j. [13/50, 0] ! j + h_IM h ! j) [0..<2]) \<and>
   amax [0, 1, 2, 1, 0] = Inr 2 \<and>
   [2219/1000, 2057/1000] =
     map (\<lambda>j. Re (\<Sum>k\<leftarrow>[0..<2].
                  cnj ([[Complex 1 0, Complex 1 1], [Complex 1 0, Complex 0 (- 1)]] ! k ! j) *
                  ([Complex (31/10) 1, Complex (21/10) (- 1)] ! k -
                   (\<Sum>i\<leftarrow>[0..<2].
                      [[Complex 1 0, Complex 1 1], [Complex 1 0, Complex 0 (- 1)]] ! k ! i *
                      complex_of_real ([13/50, 121/500] ! i)))) / 2)
       [0..<2]"
proof -
  let ?V = "[Complex (31/10) 1, Complex (21/10) (- 1)]"
  let ?K = "kernel_of_rows [[Complex 1 0, Complex 1 1], [Complex 1 0, Complex 0 (- 1)]]"
  let ?s0 = "\<lparr>c_Ipsf = [0, 1/2, 1, 1/2, 0::real], c_maxPSF = 2, c_ID = [13/5, 51/20::real],
        c_IMmajor = [0, 0::real], c_IR = [13/5, 51/20::real], c_p = [0],
        c_Ipeak = [13/5::real], c_i = 0, c_out = []\<rparr>"
  let ?s1 = "\<lparr>c_Ipsf = [0, 1/2, 1, 1/2, 0::real], c_maxPSF = 2, c_ID = [13/5, 51/20::real],
        c_IMmajor = [13/50, 0::real], c_IR = [117/50, 121/50::real], c_p = [1],
        c_Ipeak = [121/50::real], c_i = 1, c_out = []\<rparr>"
  let ?s2 = "\<lparr>c_Ipsf = [0, 1/2, 1, 1/2, 0::real], c_maxPSF = 2, c_ID = [13/5, 51/20::real],
        c_IMmajor = [13/50, 121/500::real], c_IR = [2219/1000, 2057/1000::real], c_p = [0],
        c_Ipeak = [2219/1000::real], c_i = 2, c_out = []\<rparr>"
  have K: "nrows ?K = 2" "ncols ?K = 2"
    "entry ?K = (\<lambda>k j. [[Complex 1 0, Complex 1 1], [Complex 1 0, Complex 0 (- 1)]] ! k ! j)"
    by (simp_all add: kernel_of_rows_def)
  have init: "CS_init ?V ?K [0, 1, 2, 1, 0] = Inr ?s0"
    by (simp add: CS_defs numpy_defs kernel_of_rows_def)
  have b1: "CS_body ?V ?K (19/20) ?s0 = Inr ?s1"
    by (simp add: CS_defs Hogbom_defs numpy_defs kernel_of_rows_def)
  have steps: "CS_steps 1 ?V ?K (19/20) ?s0 = Inr ?s1"
    unfolding One_nat_def CS_steps.simps b1 by simp
  have body: "CS_body ?V ?K (19/20) ?s1 = Inr ?s2"
    by (simp add: CS_defs Hogbom_defs numpy_defs kernel_of_rows_def)
  from CS_body_major_cycle [OF init steps body]
  obtain p v h printed where r:
    "c_p ?s1 = [p]" "v = c_IR ?s1 ! p"
    "Hogbom_CLEAN (c_IR ?s1) (c_Ipsf ?s1) (1/10) (19/20 * v) 200 = Inr (h, printed)"
    "c_IMmajor ?s2 = map (\<lambda>j. c_IMmajor ?s1 ! j + h_IM h ! j) [0..<ncols ?K]"
    "amax [0, 1, 2, 1, 0] = Inr (c_maxPSF ?s1)"
    "c_IR ?s2 =
        map (\<lambda>j. Re (\<Sum>k\<leftarrow>[0..<nrows ?K]. cnj (entry ?K k j) *
                    (?V ! k -
                     (\<Sum>i\<leftarrow>[0..<ncols ?K]. entry ?K k i * complex_of_real (c_IMmajor ?s2 ! i))))
                 / c_maxPSF ?s1)
          [0..<ncols ?K]"
    by (elim exE conjE) (rule that)
  from r(1,2) have v: "v = 121/50" by simp
  have sel: "c_IR ?s1 = [117/50, 121/50]" "c_Ipsf ?s1 = [0, 1/2, 1, 1/2, 0]"
    "c_IMmajor ?s1 = [13/50, 0]" "c_IMmajor ?s2 = [13/50, 121/500]"
    "c_IR ?s2 = [2219/1000, 2057/1000]" "c_maxPSF ?s1 = 2"
    by simp_all
  have h: "Hogbom_CLEAN [117/50, 121/50] [0, 1/2, 1, 1/2, 0] (1/10) (19/20 * (121/50)) 200 =
        Inr (h, printed)"
    using r(3) unfolding v sel .
  have a: "[13/50, 121/500] = map (\<lambda>j. [13/50, 0] ! j + h_IM h ! j) [0..<2]"
    using r(4) unfolding sel K .
  have m: "amax [0, 1, 2, 1, 0] = Inr 2"
    using r(5) unfolding sel .
  have res: "[2219/1000, 2057/1000] =
     map (\<lambda>j. Re (\<Sum>k\<leftarrow>[0..<2].
                  cnj ([[Complex 1 0, Complex 1 1], [Complex 1 0, Complex 0 (- 1)]] ! k ! j) *
                  ([Complex (31/10) 1, Complex (21/10) (- 1)] ! k -
                   (\<Sum>i\<leftarrow>[0..<2].
                      [[Complex 1 0, Complex 1 1], [Complex 1 0, Complex 0 (- 1)]] ! k ! i *
                      complex_of_real ([13/50, 121/500] ! i)))) / 2)
       [0..<2]"
    using r(6) unfolding sel K .
  from h a have ex: "\<exists>h printed.
      Hogbom_CLEAN [117/50, 121/50] [0, 1/2, 1, 1/2, 0] (1/10) (19/20 * (121/50)) 200 =
        Inr (h, printed) \<and>
      [13/50, 121/500] = map (\<lambda>j. [13/50, 0] ! j + h_IM h ! j) [0..<2]"
    by (intro exI [of _ h] exI [of _ printed] conjI)
  from init steps body ex m res show ?thesis by (intro conjI)
qed

subsection \<open>The weighted PSF\<close>

text \<open>
  Claim C8. The weight of a baseline \<open>x\<close> is the same as that of \<open>- x\<close>; it is \<open>\<bar>x\<bar>\<close> to the
  power \<open>R\<close> (for \<open>R \<noteq> 0\<close>, and \<open>x \<noteq> 0\<close> or \<open>R > 0\<close>), and 1 for the exponent 0. With one baseline
  for each entry of the sampling function, the array that \<^verbatim>\<open>inter_PSF\<close> builds has at pixel
  \<open>j\<close> the real part of the sum over the baselines \<open>k\<close> of the conjugate of \<open>F[k, j]\<close> times
  \<open>S[k]\<close> times the weight of \<open>u[k]\<close>, divided by the largest of these values over the pixels.
  With the exponent 0 the weights drop out of that sum, and the array is the naturally
  weighted, normalised PSF of the notebook.
\<close>

theorem inter_PSF_weighting:
  "weight R (- x) = weight R x \<and>
   (R \<noteq> 0 \<and> (x \<noteq> 0 \<or> 0 < R) \<longrightarrow> weight R x = Inr (\<bar>x\<bar> powr R)) \<and>
   weight 0 x = Inr 1 \<and>
   (length S = length u \<and> inter_PSF S F u R = Inr P \<longrightarrow>
      (\<exists>Ws raw m.
         length Ws = length u \<and> (\<forall>k < length u. weight R (u ! k) = Inr (Ws ! k)) \<and>
         length u = nrows F \<and>
         (\<forall>j. raw j = Re (\<Sum>k\<leftarrow>[0..<nrows F]. cnj (entry F k j) *
                           complex_of_real (S ! k * Ws ! k))) \<and>
         ncols F \<noteq> 0 \<and> m = Max (raw ` {0..<ncols F}) \<and> m \<noteq> 0 \<and>
         P = map (\<lambda>j. raw j / m) [0..<ncols F])) \<and>
   (length S = length u \<and> inter_PSF S F u 0 = Inr Q \<longrightarrow>
      (\<exists>raw m.
         (\<forall>j. raw j = Re (\<Sum>k\<leftarrow>[0..<nrows F]. cnj (entry F k j) *
                           complex_of_real (S ! k))) \<and>
         m = Max (raw ` {0..<ncols F}) \<and> Q = map (\<lambda>j. raw j / m) [0..<ncols F])) \<and>
   (length S = length u \<longrightarrow> inter_PSF S F u 0 = natural_PSF S F)"
proof (intro conjI impI)
  show "weight R (- x) = weight R x" by (rule weight_even)
  show "weight 0 x = Inr 1" by (rule weight_zero)
next
  assume "R \<noteq> 0 \<and> (x \<noteq> 0 \<or> 0 < R)"
  then show "weight R x = Inr (\<bar>x\<bar> powr R)"
    by (auto simp: weight_def np_power_def)
next
  assume "length S = length u \<and> inter_PSF S F u R = Inr P"
  then show "\<exists>Ws raw m.
         length Ws = length u \<and> (\<forall>k < length u. weight R (u ! k) = Inr (Ws ! k)) \<and>
         length u = nrows F \<and>
         (\<forall>j. raw j = Re (\<Sum>k\<leftarrow>[0..<nrows F]. cnj (entry F k j) *
                           complex_of_real (S ! k * Ws ! k))) \<and>
         ncols F \<noteq> 0 \<and> m = Max (raw ` {0..<ncols F}) \<and> m \<noteq> 0 \<and>
         P = map (\<lambda>j. raw j / m) [0..<ncols F]"
    using inter_PSF_explicit [of S u F R P] by simp
next
  assume "length S = length u \<and> inter_PSF S F u 0 = Inr Q"
  then show "\<exists>raw m.
         (\<forall>j. raw j = Re (\<Sum>k\<leftarrow>[0..<nrows F]. cnj (entry F k j) *
                           complex_of_real (S ! k))) \<and>
         m = Max (raw ` {0..<ncols F}) \<and> Q = map (\<lambda>j. raw j / m) [0..<ncols F]"
    using inter_PSF_zero_explicit [of S u F Q] by simp
next
  assume "length S = length u"
  then show "inter_PSF S F u 0 = natural_PSF S F" by (rule inter_PSF_zero)
qed

text \<open>
  Three baselines \<open>-2\<close>, \<open>1\<close> and \<open>3\<close>, the second one not sampled, two pixels and the
  exponent 2: the weights are 4, 1 and 9, the weighted PSF is \<open>[1, -1/13]\<close> and the
  naturally weighted one \<open>[1, 1/2]\<close>.
\<close>

theorem inter_PSF_weighting_witness:
  "weight 2 (- 2) = weight 2 2 \<and> weight 2 (- 2) = Inr (\<bar>- 2\<bar> powr 2) \<and>
   weight 0 2 = Inr 1 \<and>
   inter_PSF [1, 0, 1]
      (kernel_of_rows [[Complex 1 0, Complex 2 1], [Complex 1 0, Complex 1 0],
                       [Complex 1 0, Complex (- 1) (- 1)]]) [- 2, 1, 3] 2 = Inr [1, - 1/13] \<and>
   (\<exists>Ws raw m.
      weight 2 (- 2) = Inr (Ws ! 0) \<and> weight 2 1 = Inr (Ws ! 1) \<and> weight 2 3 = Inr (Ws ! 2) \<and>
      (\<forall>j. raw j = Re (\<Sum>k\<leftarrow>[0..<3].
          cnj ([[Complex 1 0, Complex 2 1], [Complex 1 0, Complex 1 0],
                [Complex 1 0, Complex (- 1) (- 1)]] ! k ! j) *
          complex_of_real ([1, 0, 1] ! k * Ws ! k))) \<and>
      m = Max (raw ` {0..<2}) \<and> [1, - 1/13] = map (\<lambda>j. raw j / m) [0..<2]) \<and>
   inter_PSF [1, 0, 1]
      (kernel_of_rows [[Complex 1 0, Complex 2 1], [Complex 1 0, Complex 1 0],
                       [Complex 1 0, Complex (- 1) (- 1)]]) [- 2, 1, 3] 0 =
   natural_PSF [1, 0, 1]
      (kernel_of_rows [[Complex 1 0, Complex 2 1], [Complex 1 0, Complex 1 0],
                       [Complex 1 0, Complex (- 1) (- 1)]]) \<and>
   natural_PSF [1, 0, 1]
      (kernel_of_rows [[Complex 1 0, Complex 2 1], [Complex 1 0, Complex 1 0],
                       [Complex 1 0, Complex (- 1) (- 1)]]) = Inr [1, 1/2]"
proof -
  let ?K = "kernel_of_rows [[Complex 1 0, Complex 2 1], [Complex 1 0, Complex 1 0],
                       [Complex 1 0, Complex (- 1) (- 1)]]"
  have K: "nrows ?K = 3" "ncols ?K = 2"
    "entry ?K = (\<lambda>k j. [[Complex 1 0, Complex 2 1], [Complex 1 0, Complex 1 0],
                [Complex 1 0, Complex (- 1) (- 1)]] ! k ! j)"
    by (simp_all add: kernel_of_rows_def)
  have run: "inter_PSF [1, 0, 1] ?K [- 2, 1, 3] 2 = Inr [1, - 1/13]"
    by (simp add: inter_PSF_def weight_def np_power_def bmul_def normalised_PSF_def dotH_def
        amax_def kernel_of_rows_def upt_rec)
  have nat: "natural_PSF [1, 0, 1] ?K = Inr [1, 1/2]"
    by (simp add: natural_PSF_def normalised_PSF_def dotH_def amax_def kernel_of_rows_def
        upt_rec)
  have len: "length [1, 0, 1::real] = length [- 2, 1, 3::real]" by simp
  note a = inter_PSF_weighting
    [where R = 2 and x = 2 and S = "[1, 0, 1]" and u = "[- 2, 1, 3]" and F = ?K
       and P = "[1, - 1/13]" and Q = "[1, 1/2]"]
  note b = inter_PSF_weighting
    [where R = 2 and x = "- 2" and S = "[1, 0, 1]" and u = "[- 2, 1, 3]" and F = ?K
       and P = "[1, - 1/13]" and Q = "[1, 1/2]"]
  have 1: "weight 2 (- 2) = weight 2 2"
    by (rule a [THEN conjunct1])
  have "(2::real) \<noteq> 0 \<and> (- 2 \<noteq> (0::real) \<or> (0::real) < 2)" by simp
  with b [THEN conjunct2, THEN conjunct1]
  have 2: "weight 2 (- 2) = Inr (\<bar>- 2\<bar> powr 2)" by (rule mp)
  have 3: "weight 0 2 = Inr 1"
    by (rule a [THEN conjunct2, THEN conjunct2, THEN conjunct1])
  from len run have "length [1, 0, 1::real] = length [- 2, 1, 3::real] \<and>
      inter_PSF [1, 0, 1] ?K [- 2, 1, 3] 2 = Inr [1, - 1/13]" by (rule conjI)
  with a [THEN conjunct2, THEN conjunct2, THEN conjunct2, THEN conjunct1]
  have "\<exists>Ws raw m.
         length Ws = length [- 2, 1, 3::real] \<and>
         (\<forall>k < length [- 2, 1, 3::real]. weight 2 ([- 2, 1, 3] ! k) = Inr (Ws ! k)) \<and>
         length [- 2, 1, 3::real] = nrows ?K \<and>
         (\<forall>j. raw j = Re (\<Sum>k\<leftarrow>[0..<nrows ?K]. cnj (entry ?K k j) *
                           complex_of_real ([1, 0, 1] ! k * Ws ! k))) \<and>
         ncols ?K \<noteq> 0 \<and> m = Max (raw ` {0..<ncols ?K}) \<and> m \<noteq> 0 \<and>
         [1, - 1/13] = map (\<lambda>j. raw j / m) [0..<ncols ?K]"
    by (rule mp)
  then obtain Ws raw m where w:
    "\<forall>k < length [- 2, 1, 3::real]. weight 2 ([- 2, 1, 3] ! k) = Inr (Ws ! k)"
    "\<forall>j. raw j = Re (\<Sum>k\<leftarrow>[0..<nrows ?K]. cnj (entry ?K k j) *
                           complex_of_real ([1, 0, 1] ! k * Ws ! k))"
    "m = Max (raw ` {0..<ncols ?K})"
    "[1, - 1/13] = map (\<lambda>j. raw j / m) [0..<ncols ?K]"
    by (elim exE conjE) (rule that)
  have w0: "weight 2 (- 2) = Inr (Ws ! 0)"
    using w(1) [THEN spec, of 0] by simp
  have w1: "weight 2 1 = Inr (Ws ! 1)"
    using w(1) [THEN spec, of 1] by simp
  have w2: "weight 2 3 = Inr (Ws ! 2)"
    using w(1) [THEN spec, of 2] by simp
  have 4: "\<forall>j. raw j = Re (\<Sum>k\<leftarrow>[0..<3].
          cnj ([[Complex 1 0, Complex 2 1], [Complex 1 0, Complex 1 0],
                [Complex 1 0, Complex (- 1) (- 1)]] ! k ! j) *
          complex_of_real ([1, 0, 1] ! k * Ws ! k))"
    "m = Max (raw ` {0..<2})" "[1, - 1/13] = map (\<lambda>j. raw j / m) [0..<2]"
    using w(2-4) unfolding K by -
  from w0 w1 w2 4 have 5: "\<exists>Ws raw m.
      weight 2 (- 2) = Inr (Ws ! 0) \<and> weight 2 1 = Inr (Ws ! 1) \<and> weight 2 3 = Inr (Ws ! 2) \<and>
      (\<forall>j. raw j = Re (\<Sum>k\<leftarrow>[0..<3].
          cnj ([[Complex 1 0, Complex 2 1], [Complex 1 0, Complex 1 0],
                [Complex 1 0, Complex (- 1) (- 1)]] ! k ! j) *
          complex_of_real ([1, 0, 1] ! k * Ws ! k))) \<and>
      m = Max (raw ` {0..<2}) \<and> [1, - 1/13] = map (\<lambda>j. raw j / m) [0..<2]"
    by (intro exI [of _ Ws] exI [of _ raw] exI [of _ m] conjI)
  from len a [THEN conjunct2, THEN conjunct2, THEN conjunct2, THEN conjunct2, THEN conjunct2]
  have 6: "inter_PSF [1, 0, 1] ?K [- 2, 1, 3] 0 = natural_PSF [1, 0, 1] ?K" by (rule rev_mp)
  from 1 2 3 run 5 6 nat show ?thesis by (intro conjI)
qed

end
